theory Spec2Isabelle
  imports Main "HOL-Library.Char_ord" "HOL-Library.List_Lexorder" "HOL-Library.Sublist"
    "HOL-Library.Multiset"
begin

section \<open>Data model of \<open>lit-timesheet.ts\<close>\<close>

text \<open>
  The component keeps its entries in a JavaScript \<open>Map<string, TimeEntry>\<close>. The values of
  that map are mutable objects that every method shares by reference: \<open>filterMap\<close> builds a
  new map over the same objects, \<open>validateEntry\<close> writes the \<open>valid\<close> flag of the object
  it is given, and \<open>saveEntry\<close> writes its \<open>dirty\<close> flag. The embedding therefore has an
  explicit store of objects (\<open>heap\<close>, from references to records) and represents the map
  as an association list from keys to references, in the map's insertion order.

  Strings are compared by JavaScript with \<open><\<close> and \<open>>=\<close>, code unit by code unit; here a
  string is a \<open>char list\<close> under the lexicographic order of the character codes.

  The field \<open>end\<close> of the source is named \<open>end_time\<close>, since \<open>end\<close> is a keyword.
\<close>

record TimeEntry =
  date :: string
  start :: string
  end_time :: string
  category :: string
  description :: string
  valid :: bool
  dirty :: bool

datatype TimeEntryKey =
  K_date | K_start | K_end | K_category | K_description | K_valid | K_dirty

text \<open>The values an entry's field or a query can hold.\<close>

datatype field_value = JString string | JBool bool

fun field_of :: "TimeEntry \<Rightarrow> TimeEntryKey \<Rightarrow> field_value" where
  "field_of e K_date = JString (date e)"
| "field_of e K_start = JString (start e)"
| "field_of e K_end = JString (end_time e)"
| "field_of e K_category = JString (category e)"
| "field_of e K_description = JString (description e)"
| "field_of e K_valid = JBool (valid e)"
| "field_of e K_dirty = JBool (dirty e)"

type_synonym ref = nat
type_synonym conn = nat
type_synonym entry_map = "(string \<times> ref) list"

text \<open>
  What the component asks of the object store \<open>timesheet-entries\<close>, each call tagged with
  the connection it goes through. \<open>put\<close> stores a structured clone of the entry, which is
  the record as it is in the heap at the moment of the call.
\<close>

datatype db_event =
  DbOpen conn
| DbPut conn TimeEntry string
| DbDelete conn string
| DbClose conn

record state =
  heap :: "ref \<Rightarrow> TimeEntry"
  next_ref :: ref
  entries :: entry_map
  store :: "string \<rightharpoonup> TimeEntry"
  log :: "db_event list"

section \<open>Numbers returned by \<open>Date.parse\<close>\<close>

text \<open>
  \<open>Date.parse\<close> returns a number of milliseconds or \<open>NaN\<close>; \<open>None\<close> stands for \<open>NaN\<close>.
  Every comparison with \<open>NaN\<close> is false. The function itself belongs to the platform and
  is a parameter \<open>parse\<close> of the operations that call it.
\<close>

type_synonym timestamp = "int option"

fun js_le :: "timestamp \<Rightarrow> timestamp \<Rightarrow> bool" where
  "js_le (Some a) (Some b) = (a \<le> b)"
| "js_le _ _ = False"

fun js_lt :: "timestamp \<Rightarrow> timestamp \<Rightarrow> bool" where
  "js_lt (Some a) (Some b) = (a < b)"
| "js_lt _ _ = False"

definition date_time :: "string \<Rightarrow> string \<Rightarrow> string" where
  "date_time d t = d @ '' '' @ t"

section \<open>The map operations\<close>

text \<open>\<open>Map.prototype.set\<close>: an existing key keeps its place, a new key goes last.\<close>

fun map_set :: "string \<Rightarrow> ref \<Rightarrow> entry_map \<Rightarrow> entry_map" where
  "map_set k v [] = [(k, v)]"
| "map_set k v ((k', v') # m) = (if k = k' then (k, v) # m else (k', v') # map_set k v m)"

text \<open>\<open>new Map(pairs)\<close>: the pairs are set one after the other, from the left.\<close>

definition new_Map :: "(string \<times> ref) list \<Rightarrow> entry_map" where
  "new_Map ps = foldl (\<lambda>m (k, v). map_set k v m) [] ps"

text \<open>\<open>Map.prototype.delete\<close>.\<close>

definition map_delete :: "string \<Rightarrow> entry_map \<Rightarrow> entry_map" where
  "map_delete k m = filter (\<lambda>(k', _). k' \<noteq> k) m"

definition filterMap :: "(ref \<Rightarrow> TimeEntry) \<Rightarrow> entry_map \<Rightarrow> TimeEntryKey \<Rightarrow> field_value \<Rightarrow> entry_map" where
  "filterMap h m field query = new_Map (filter (\<lambda>(_, r). field_of (h r) field = query) m)"

section \<open>Validation\<close>

text \<open>
  The loop of \<open>validateEntry\<close> over the entries of the same date: \<open>True\<close> when it runs to
  its end, \<open>False\<close> when it returns at a collision.
\<close>

fun no_collision ::
  "(string \<Rightarrow> timestamp) \<Rightarrow> (ref \<Rightarrow> TimeEntry) \<Rightarrow> string \<Rightarrow> timestamp \<Rightarrow> timestamp \<Rightarrow> entry_map \<Rightarrow> bool" where
  "no_collision parse h uuid st en [] = True"
| "no_collision parse h uuid st en ((otherUuid, r) # rest) =
     (if uuid = otherUuid then no_collision parse h uuid st en rest
      else
        let otherStart = parse (date_time (date (h r)) (start (h r)));
            otherEnd = parse (date_time (date (h r)) (end_time (h r)))
        in if (js_le otherStart st \<and> js_lt st otherEnd) \<or> (js_le st otherStart \<and> js_lt otherStart en)
           then False
           else no_collision parse h uuid st en rest)"

definition set_valid :: "state \<Rightarrow> ref \<Rightarrow> bool \<Rightarrow> state" where
  "set_valid s r b = s\<lparr>heap := (heap s)(r := (heap s r)\<lparr>valid := b\<rparr>)\<rparr>"

definition set_dirty :: "state \<Rightarrow> ref \<Rightarrow> bool \<Rightarrow> state" where
  "set_dirty s r b = s\<lparr>heap := (heap s)(r := (heap s r)\<lparr>dirty := b\<rparr>)\<rparr>"

definition validateEntry :: "(string \<Rightarrow> timestamp) \<Rightarrow> state \<Rightarrow> ref \<Rightarrow> string \<Rightarrow> bool \<times> state" where
  "validateEntry parse s entry uuid =
     (let e = heap s entry in
      if start e \<ge> end_time e then (False, set_valid s entry False)
      else
        let st = parse (date_time (date e) (start e));
            en = parse (date_time (date e) (end_time e));
            otherEntries = filterMap (heap s) (entries s) K_date (JString (date e))
        in if no_collision parse (heap s) uuid st en otherEntries
           then (True, set_valid s entry True)
           else (False, set_valid s entry False))"

text \<open>\<open>updateValidationStatus\<close>: the loop over the map, each entry under its own key.\<close>

fun validate_all :: "(string \<Rightarrow> timestamp) \<Rightarrow> entry_map \<Rightarrow> state \<Rightarrow> state" where
  "validate_all parse [] s = s"
| "validate_all parse ((uuid, entry) # rest) s =
     validate_all parse rest (snd (validateEntry parse s entry uuid))"

definition updateValidationStatus :: "(string \<Rightarrow> timestamp) \<Rightarrow> state \<Rightarrow> state" where
  "updateValidationStatus parse s = validate_all parse (entries s) s"

section \<open>Persistence\<close>

text \<open>
  \<open>getDB\<close> opens a connection; the connection is named by the position of its opening in
  the log, so that no two connections share a name. The operations of this section run a
  handler from its start to its end; a handler that another one interrupts at an \<open>await\<close>
  is the subject of a later section.
\<close>

definition getDB :: "state \<Rightarrow> conn \<times> state" where
  "getDB s = (let c = length (log s) in (c, s\<lparr>log := log s @ [DbOpen c]\<rparr>))"

definition db_put :: "conn \<Rightarrow> TimeEntry \<Rightarrow> string \<Rightarrow> state \<Rightarrow> state" where
  "db_put c e k s = s\<lparr>store := (store s)(k \<mapsto> e), log := log s @ [DbPut c e k]\<rparr>"

definition db_delete :: "conn \<Rightarrow> string \<Rightarrow> state \<Rightarrow> state" where
  "db_delete c k s = s\<lparr>store := (store s)(k := None), log := log s @ [DbDelete c k]\<rparr>"

definition db_close :: "conn \<Rightarrow> state \<Rightarrow> state" where
  "db_close c s = s\<lparr>log := log s @ [DbClose c]\<rparr>"

text \<open>The loop of \<open>saveValidDitryEntries\<close> over the dirty entries found at its start.\<close>

fun save_dirty_loop :: "(string \<Rightarrow> timestamp) \<Rightarrow> conn \<Rightarrow> entry_map \<Rightarrow> state \<Rightarrow> state" where
  "save_dirty_loop parse c [] s = s"
| "save_dirty_loop parse c ((dirtyUuid, dirtyEntry) # rest) s =
     (let (ok, s1) = validateEntry parse s dirtyEntry dirtyUuid in
      if ok then
        let s2 = set_dirty s1 dirtyEntry False
        in save_dirty_loop parse c rest (db_put c (heap s2 dirtyEntry) dirtyUuid s2)
      else save_dirty_loop parse c rest s1)"

definition saveValidDitryEntries :: "(string \<Rightarrow> timestamp) \<Rightarrow> state \<Rightarrow> state" where
  "saveValidDitryEntries parse s =
     (let dirtyEntries = filterMap (heap s) (entries s) K_dirty (JBool True);
          (c, s1) = getDB s
      in save_dirty_loop parse c dirtyEntries s1)"

definition saveEntry :: "(string \<Rightarrow> timestamp) \<Rightarrow> state \<Rightarrow> ref \<Rightarrow> string \<Rightarrow> state" where
  "saveEntry parse s entry uuid =
     (let oldValidFlag = valid (heap s entry);
          (ok, s1) = validateEntry parse s entry uuid
      in if ok then
           let s2 = set_dirty s1 entry False;
               (c, s3) = getDB s2;
               s4 = db_put c (heap s3 entry) uuid s3;
               s5 = db_close c s4
           in if oldValidFlag then saveValidDitryEntries parse s5 else s5
         else set_dirty s1 entry True)"

definition deleteEntry :: "(string \<Rightarrow> timestamp) \<Rightarrow> state \<Rightarrow> ref \<Rightarrow> string \<Rightarrow> state" where
  "deleteEntry parse s entry uuid =
     (let s1 = s\<lparr>entries := map_delete uuid (entries s)\<rparr>;
          s2 = (if \<not> valid (heap s1 entry) then saveValidDitryEntries parse s1 else s1);
          (c, s3) = getDB s2
      in db_close c (db_delete c uuid s3))"

section \<open>Ordering\<close>

text \<open>The comparison function that \<open>sortEntries\<close> hands to \<open>Array.prototype.sort\<close>.\<close>

definition compareEntries ::
  "(string \<Rightarrow> timestamp) \<Rightarrow> (ref \<Rightarrow> TimeEntry) \<Rightarrow> string \<times> ref \<Rightarrow> string \<times> ref \<Rightarrow> int" where
  "compareEntries parse h a b =
     (let ea = h (snd a); eb = h (snd b);
          timestampA = parse (date_time (date ea) (start ea));
          timestampB = parse (date_time (date eb) (start eb))
      in if js_lt timestampA timestampB then - 1
         else if js_lt timestampB timestampA then 1
         else if category ea < category eb then - 1
         else if category ea > category eb then 1
         else if description ea < description eb then - 1
         else if description ea > description eb then 1
         else 0)"

text \<open>
  \<open>Array.prototype.sort\<close> is stable, and for a consistent comparison function its result
  is the one stable ordering of the array; it is modelled by the stable insertion sort.
  For a comparison function that is not consistent the language leaves the order to the
  implementation, and the insertion sort is one such implementation among others.
\<close>

fun insert_sorted :: "('a \<Rightarrow> 'a \<Rightarrow> int) \<Rightarrow> 'a \<Rightarrow> 'a list \<Rightarrow> 'a list" where
  "insert_sorted cmp x [] = [x]"
| "insert_sorted cmp x (y # ys) =
     (if cmp x y \<le> 0 then x # y # ys else y # insert_sorted cmp x ys)"

definition array_sort :: "('a \<Rightarrow> 'a \<Rightarrow> int) \<Rightarrow> 'a list \<Rightarrow> 'a list" where
  "array_sort cmp xs = foldr (insert_sorted cmp) xs []"

definition sortEntries :: "(string \<Rightarrow> timestamp) \<Rightarrow> state \<Rightarrow> state" where
  "sortEntries parse s =
     s\<lparr>entries := new_Map (array_sort (compareEntries parse (heap s)) (entries s))\<rparr>"

section \<open>New entries\<close>

definition getLatestTime :: "state \<Rightarrow> string \<Rightarrow> string" where
  "getLatestTime s d =
     (let entriesFromDate = filterMap (heap s) (entries s) K_date (JString d)
      in foldl (\<lambda>max current. if max > current then max else current) ''07:00''
           (map (\<lambda>(_, r). end_time (heap s r)) entriesFromDate))"

text \<open>
  \<open>addNew\<close> reads the clock and the identifier generator, and formats a time with
  \<open>toLocaleTimeString\<close>. The date string it builds from the clock, the identifier and the
  locale's formatting are parameters; \<open>localeTimeString t\<close> is
  \<open>new Date(t).toLocaleTimeString()\<close>.
\<close>

definition addNew ::
  "(string \<Rightarrow> timestamp) \<Rightarrow> (timestamp \<Rightarrow> string) \<Rightarrow> string \<Rightarrow> string \<Rightarrow> state \<Rightarrow> state" where
  "addNew parse localeTimeString dateString uuid s =
     (let st = getLatestTime s dateString;
          en = (if st \<ge> ''23:30'' then ''23:59''
                else
                  let startTime = parse (date_time dateString st);
                      startTime' = map_option (\<lambda>t. t + 1000 * 60 * 30) startTime
                  in take 5 (localeTimeString startTime'));
          entry = \<lparr>date = dateString, start = st, end_time = en, category = ''Meeting'',
                   description = '''', valid = False, dirty = True\<rparr>;
          r = next_ref s;
          s1 = s\<lparr>heap := (heap s)(r := entry), next_ref := Suc r,
                 entries := map_set uuid r (entries s)\<rparr>;
          s2 = updateValidationStatus parse s1
      in saveEntry parse s2 r uuid)"

section \<open>A reference platform\<close>

text \<open>
  The operations above take \<open>Date.parse\<close> and \<open>toLocaleTimeString\<close> as parameters. Where a
  property is evaluated on concrete entries, the parameters are the functions of this
  section: the platform of a user whose time zone has a fixed offset (taken to be zero, which
  no comparison of two timestamps depends on) and whose locale writes the time of day as
  \<open>HH:MM:SS\<close> on the 24-hour clock. \<open>parseDateTime\<close> reads the strings that the date and
  time inputs of the component produce, \<open>YYYY-MM-DD HH:MM\<close>, and is \<open>NaN\<close> on any other
  string.
\<close>

definition digit_val :: "char \<Rightarrow> nat option" where
  "digit_val c =
     (let n = (of_char c :: nat) in if 48 \<le> n \<and> n \<le> 57 then Some (n - 48) else None)"

definition digit_char :: "nat \<Rightarrow> char" where
  "digit_char d = ''0123456789'' ! d"

fun number_of :: "nat \<Rightarrow> string \<Rightarrow> nat option" where
  "number_of acc [] = Some acc"
| "number_of acc (c # cs) =
     (case digit_val c of None \<Rightarrow> None | Some d \<Rightarrow> number_of (10 * acc + d) cs)"

definition two_digits :: "nat \<Rightarrow> string" where
  "two_digits n = [digit_char (n div 10 mod 10), digit_char (n mod 10)]"

text \<open>The number of days from 1970-01-01 to a day of the Gregorian calendar.\<close>

definition days_from_civil :: "int \<Rightarrow> int \<Rightarrow> int \<Rightarrow> int" where
  "days_from_civil y m d =
     (let y' = (if m \<le> 2 then y - 1 else y);
          era = y' div 400;
          yoe = y' - era * 400;
          doy = (153 * (if m > 2 then m - 3 else m + 9) + 2) div 5 + d - 1;
          doe = yoe * 365 + yoe div 4 - yoe div 100 + doy
      in era * 146097 + doe - 719468)"

definition parse_date :: "string \<Rightarrow> int option" where
  "parse_date s =
     (if length s = 10 \<and> s ! 4 = CHR ''-'' \<and> s ! 7 = CHR ''-'' then
        (case (number_of 0 (take 4 s), number_of 0 (take 2 (drop 5 s)), number_of 0 (drop 8 s)) of
           (Some y, Some m, Some d) \<Rightarrow>
             if 1 \<le> m \<and> m \<le> 12 \<and> 1 \<le> d \<and> d \<le> 31
             then Some (days_from_civil (int y) (int m) (int d)) else None
         | _ \<Rightarrow> None)
      else None)"

definition parse_time :: "string \<Rightarrow> nat option" where
  "parse_time s =
     (if length s = 5 \<and> s ! 2 = CHR '':'' then
        (case (number_of 0 (take 2 s), number_of 0 (drop 3 s)) of
           (Some h, Some m) \<Rightarrow> if h < 24 \<and> m < 60 then Some (60 * h + m) else None
         | _ \<Rightarrow> None)
      else None)"

definition parseDateTime :: "string \<Rightarrow> timestamp" where
  "parseDateTime s =
     (if length s = 16 \<and> s ! 10 = CHR '' '' then
        (case (parse_date (take 10 s), parse_time (drop 11 s)) of
           (Some d, Some m) \<Rightarrow> Some ((d * 1440 + int m) * 60000)
         | _ \<Rightarrow> None)
      else None)"

text \<open>The time of day \<open>n\<close> minutes after midnight, as the time input writes it.\<close>

definition hhmm :: "nat \<Rightarrow> string" where
  "hhmm n = two_digits (n div 60) @ '':'' @ two_digits (n mod 60)"

definition localeTimeString24 :: "timestamp \<Rightarrow> string" where
  "localeTimeString24 t =
     (case t of
        None \<Rightarrow> ''Invalid Date''
      | Some ms \<Rightarrow>
          let secs = nat ((ms div 1000) mod 86400)
          in hhmm (secs div 60) @ '':'' @ two_digits (secs mod 60))"

section \<open>Handlers that are interrupted\<close>

text \<open>
  \<open>saveEntry\<close> awaits \<open>getDB()\<close> after it has validated the entry and cleared its
  \<open>dirty\<close> flag, and hands the entry to \<open>put\<close> only when it is resumed; another handler can
  run in between. \<open>saveEntry_start\<close> is \<open>saveEntry\<close> up to that await, and returns what the
  handler keeps for later: the connection it has asked for and \<open>oldValidFlag\<close>, or nothing
  when the entry is invalid and the handler is finished. \<open>saveEntry_resume\<close> is the rest.
\<close>

type_synonym pending = "conn \<times> bool"

definition saveEntry_start ::
  "(string \<Rightarrow> timestamp) \<Rightarrow> state \<Rightarrow> ref \<Rightarrow> string \<Rightarrow> pending option \<times> state" where
  "saveEntry_start parse s entry uuid =
     (let oldValidFlag = valid (heap s entry);
          (ok, s1) = validateEntry parse s entry uuid
      in if ok then
           let s2 = set_dirty s1 entry False;
               (c, s3) = getDB s2
           in (Some (c, oldValidFlag), s3)
         else (None, set_dirty s1 entry True))"

definition saveEntry_resume ::
  "(string \<Rightarrow> timestamp) \<Rightarrow> state \<Rightarrow> ref \<Rightarrow> string \<Rightarrow> pending \<Rightarrow> state" where
  "saveEntry_resume parse s entry uuid p =
     (let (c, oldValidFlag) = p;
          s4 = db_put c (heap s entry) uuid s;
          s5 = db_close c s4
      in if oldValidFlag then saveValidDitryEntries parse s5 else s5)"





section \<open>A 12-hour locale\<close>

text \<open>
  \<open>toLocaleTimeString\<close> as the locale \<open>en-US\<close> writes the time of day, \<open>h:MM:SS AM\<close> or
  \<open>PM\<close>, in the time zone of the reference platform.
\<close>

definition hour12 :: "nat \<Rightarrow> string" where
  "hour12 h = (let k = (if h mod 12 = 0 then 12 else h mod 12)
               in if k < 10 then [digit_char k] else two_digits k)"

definition localeTimeString12 :: "timestamp \<Rightarrow> string" where
  "localeTimeString12 t =
     (case t of
        None \<Rightarrow> ''Invalid Date''
      | Some ms \<Rightarrow>
          let secs = nat ((ms div 1000) mod 86400);
              h = secs div 3600
          in hour12 h @ '':'' @ two_digits (secs div 60 mod 60) @ '':'' @ two_digits (secs mod 60)
               @ (if h < 12 then '' AM'' else '' PM''))"

section \<open>What the specification says, and the entries of its scenarios\<close>

text \<open>
  The overlap test of the specification on two half-open intervals \<open>[s1, e1)\<close> and
  \<open>[s2, e2)\<close>: \<open>s2 <= s1 < e2 || s1 <= s2 < e1\<close>, on the numbers that \<open>Date.parse\<close> returns.
\<close>

definition intervals_overlap :: "timestamp \<Rightarrow> timestamp \<Rightarrow> timestamp \<Rightarrow> timestamp \<Rightarrow> bool" where
  "intervals_overlap s1 e1 s2 e2 = ((js_le s2 s1 \<and> js_lt s1 e2) \<or> (js_le s1 s2 \<and> js_lt s2 e1))"

definition interval_start :: "(string \<Rightarrow> timestamp) \<Rightarrow> TimeEntry \<Rightarrow> timestamp" where
  "interval_start parse e = parse (date_time (date e) (start e))"

definition interval_end :: "(string \<Rightarrow> timestamp) \<Rightarrow> TimeEntry \<Rightarrow> timestamp" where
  "interval_end parse e = parse (date_time (date e) (end_time e))"

text \<open>
  An entry of the map, other than the one stored under \<open>uuid\<close>, that has the date of \<open>e\<close>
  and an interval overlapping the interval of \<open>e\<close>.
\<close>

definition overlapping_other ::
  "(string \<Rightarrow> timestamp) \<Rightarrow> (ref \<Rightarrow> TimeEntry) \<Rightarrow> TimeEntry \<Rightarrow> string \<Rightarrow> string \<times> ref \<Rightarrow> bool" where
  "overlapping_other parse h e uuid other =
     (fst other \<noteq> uuid \<and> date (h (snd other)) = date e \<and>
      intervals_overlap (interval_start parse e) (interval_end parse e)
        (interval_start parse (h (snd other))) (interval_end parse (h (snd other))))"

definition meeting :: "string \<Rightarrow> string \<Rightarrow> string \<Rightarrow> bool \<Rightarrow> bool \<Rightarrow> TimeEntry" where
  "meeting d st en v dy =
     \<lparr>date = d, start = st, end_time = en, category = ''Meeting'', description = '''',
      valid = v, dirty = dy\<rparr>"

text \<open>
  Entry \<open>a\<close> from 08:00 to 09:00 and entry \<open>b\<close> from 08:30 to 09:30 on the same day, both
  marked invalid and unsaved; \<open>c\<close> is on the next day.
\<close>

definition overlap_state :: state where
  "overlap_state =
     \<lparr>heap = (\<lambda>_. meeting '''' '''' '''' False False)
        (0 := meeting ''2024-01-01'' ''08:00'' ''09:00'' False True,
         1 := meeting ''2024-01-01'' ''08:30'' ''09:30'' False True,
         2 := meeting ''2024-01-02'' ''08:00'' ''09:00'' True False),
      next_ref = 3,
      entries = [(''a'', 0), (''b'', 1), (''c'', 2)],
      store = Map.empty,
      log = []\<rparr>"


text \<open>A \<open>put\<close> that writes an entry marked valid and not dirty; any other event.\<close>

definition put_is_clean :: "db_event \<Rightarrow> bool" where
  "put_is_clean ev = (case ev of DbPut c e k \<Rightarrow> valid e \<and> \<not> dirty e | _ \<Rightarrow> True)"

definition is_put :: "db_event \<Rightarrow> bool" where
  "is_put ev = (case ev of DbPut c e k \<Rightarrow> True | _ \<Rightarrow> False)"

text \<open>The connections that a log opens and never closes.\<close>

definition unclosed :: "db_event list \<Rightarrow> conn list" where
  "unclosed l = concat (map (\<lambda>ev. case ev of DbOpen c \<Rightarrow> (if DbClose c \<in> set l then [] else [c]) | _ \<Rightarrow> []) l)"

text \<open>
  Two entries that do not overlap, \<open>a\<close> from 08:00 to 09:00 and \<open>b\<close> from 10:00 to 11:00, both
  unsaved. In \<open>stale_state\<close> their \<open>valid\<close> flags are still \<open>false\<close>; in \<open>fresh_state\<close> the
  flags are what \<open>updateValidationStatus\<close> has just made them.
\<close>

definition stale_state :: state where
  "stale_state =
     \<lparr>heap = (\<lambda>_. meeting '''' '''' '''' False False)
        (0 := meeting ''2024-01-01'' ''08:00'' ''09:00'' False True,
         1 := meeting ''2024-01-01'' ''10:00'' ''11:00'' False True),
      next_ref = 2,
      entries = [(''a'', 0), (''b'', 1)],
      store = Map.empty,
      log = []\<rparr>"

definition fresh_state :: state where
  "fresh_state =
     \<lparr>heap = (\<lambda>_. meeting '''' '''' '''' False False)
        (0 := meeting ''2024-01-01'' ''08:00'' ''09:00'' True True,
         1 := meeting ''2024-01-01'' ''10:00'' ''11:00'' True True),
      next_ref = 2,
      entries = [(''a'', 0), (''b'', 1)],
      store = Map.empty,
      log = []\<rparr>"

text \<open>
  Entry \<open>a\<close> was saved from 08:00 to 09:00; its start has since been edited to 09:30, which
  is not before its end.
\<close>

definition edited_state :: state where
  "edited_state =
     \<lparr>heap = (\<lambda>_. meeting '''' '''' '''' False False)
        (0 := meeting ''2024-01-01'' ''09:30'' ''09:00'' True False),
      next_ref = 1,
      entries = [(''a'', 0)],
      store = [''a'' \<mapsto> meeting ''2024-01-01'' ''08:00'' ''09:00'' True False],
      log = []\<rparr>"

text \<open>Two stores of objects that agree on the date and the times of every object.\<close>

definition same_times :: "(ref \<Rightarrow> TimeEntry) \<Rightarrow> (ref \<Rightarrow> TimeEntry) \<Rightarrow> bool" where
  "same_times h h' =
     (\<forall>r. date (h' r) = date (h r) \<and> start (h' r) = start (h r) \<and> end_time (h' r) = end_time (h r))"

text \<open>
  The order of the specification: ascending by the parsed timestamp of date and start, ties
  broken by category and then by description. It relates no entry whose timestamp is \<open>NaN\<close>.
\<close>

definition entry_le :: "(string \<Rightarrow> timestamp) \<Rightarrow> TimeEntry \<Rightarrow> TimeEntry \<Rightarrow> bool" where
  "entry_le parse a b =
     (case (interval_start parse a, interval_start parse b) of
        (Some ta, Some tb) \<Rightarrow>
          ta < tb \<or> (ta = tb \<and> (category a < category b \<or>
            (category a = category b \<and> description a \<le> description b)))
      | _ \<Rightarrow> False)"

text \<open>Two entries of one day, the one that starts at 09:00 stored before the one at 08:00.\<close>

definition sort_state :: state where
  "sort_state =
     \<lparr>heap = (\<lambda>_. meeting '''' '''' '''' False False)
        (0 := meeting ''2024-01-01'' ''09:00'' ''10:00'' True False,
         1 := meeting ''2024-01-01'' ''08:00'' ''08:30'' True False),
      next_ref = 2,
      entries = [(''x'', 0), (''y'', 1)],
      store = Map.empty,
      log = []\<rparr>"

text \<open>
  States for \<open>addNew\<close> on 2024-01-01: the latest entry of the day ends at 17:45, at 23:45,
  and at 06:00.
\<close>

definition evening_state :: state where
  "evening_state =
     \<lparr>heap = (\<lambda>_. meeting '''' '''' '''' False False)
        (0 := meeting ''2024-01-01'' ''16:00'' ''17:45'' True False,
         1 := meeting ''2024-01-01'' ''09:00'' ''10:00'' True False),
      next_ref = 2,
      entries = [(''a'', 0), (''b'', 1)],
      store = Map.empty,
      log = []\<rparr>"

definition night_state :: state where
  "night_state =
     \<lparr>heap = (\<lambda>_. meeting '''' '''' '''' False False)
        (0 := meeting ''2024-01-01'' ''23:00'' ''23:45'' True False),
      next_ref = 1,
      entries = [(''a'', 0)],
      store = Map.empty,
      log = []\<rparr>"

definition early_state :: state where
  "early_state =
     \<lparr>heap = (\<lambda>_. meeting '''' '''' '''' False False)
        (0 := meeting ''2024-01-01'' ''05:00'' ''06:00'' True False),
      next_ref = 1,
      entries = [(''a'', 0)],
      store = Map.empty,
      log = []\<rparr>"

text \<open>
  The half-open test on the times of day that two entries hold; strings on the 24-hour
  clock compare as the times do.
\<close>

definition times_overlap :: "TimeEntry \<Rightarrow> TimeEntry \<Rightarrow> bool" where
  "times_overlap a b =
     ((start b \<le> start a \<and> start a < end_time b) \<or> (start a \<le> start b \<and> start b < end_time a))"

text \<open>
  Two entries whose date input has been cleared, so that their date is the empty string:
  \<open>a\<close> from 08:00 to 09:00 and \<open>b\<close> from 08:30 to 09:30.
\<close>

definition undated_state :: state where
  "undated_state =
     \<lparr>heap = (\<lambda>_. meeting '''' '''' '''' False False)
        (0 := meeting '''' ''08:00'' ''09:00'' False True,
         1 := meeting '''' ''08:30'' ''09:30'' False True),
      next_ref = 2,
      entries = [(''a'', 0), (''b'', 1)],
      store = Map.empty,
      log = []\<rparr>"

text \<open>
  Three entries as \<open>loadEntries\<close> reads them, in the order of their keys: \<open>a\<close> at 09:00
  in category Development, \<open>b\<close> with a cleared date in category Meeting, and \<open>c\<close> at 08:00 of
  the day of \<open>a\<close> in category Support.
\<close>

definition unparsed_state :: state where
  "unparsed_state =
     \<lparr>heap = (\<lambda>_. meeting '''' '''' '''' False False)
        (0 := (meeting ''2024-01-01'' ''09:00'' ''10:00'' True False)\<lparr>category := ''Development''\<rparr>,
         1 := meeting '''' ''08:00'' ''09:00'' True False,
         2 := (meeting ''2024-01-01'' ''08:00'' ''08:30'' True False)\<lparr>category := ''Support''\<rparr>),
      next_ref = 3,
      entries = [(''a'', 0), (''b'', 1), (''c'', 2)],
      store = Map.empty,
      log = []\<rparr>"


section \<open>Maps with distinct keys\<close>

text \<open>
  The keys of a \<open>Map\<close> are distinct. On pairs with distinct keys \<open>new Map\<close> keeps the pairs
  as they are, so that \<open>filterMap\<close> is the filter of the list.
\<close>

lemma map_set_fresh: "k \<notin> fst ` set m \<Longrightarrow> map_set k v m = m @ [(k, v)]"
  by (induction m) auto

lemma foldl_map_set_distinct:
  "distinct (map fst (m @ ps)) \<Longrightarrow> foldl (\<lambda>m (k, v). map_set k v m) m ps = m @ ps"
proof (induction ps arbitrary: m)
  case Nil
  then show ?case by simp
next
  case (Cons p ps)
  obtain k v where p: "p = (k, v)" by (cases p)
  from Cons.prems have fresh: "k \<notin> fst ` set m" by (auto simp: p)
  from Cons.prems have "distinct (map fst ((m @ [(k, v)]) @ ps))" by (simp add: p)
  from Cons.IH [OF this] show ?case by (simp add: p map_set_fresh [OF fresh])
qed

lemma new_Map_distinct: "distinct (map fst ps) \<Longrightarrow> new_Map ps = ps"
  using foldl_map_set_distinct [of "[]" ps] by (simp add: new_Map_def)

lemma filterMap_distinct:
  "distinct (map fst m) \<Longrightarrow>
   filterMap h m field query = filter (\<lambda>(_, r). field_of (h r) field = query) m"
  by (simp add: filterMap_def new_Map_distinct distinct_map_filter)

section \<open>Validation of one entry\<close>

lemma no_collision_iff:
  "no_collision parse h uuid st en m =
     (\<forall>other \<in> set m. fst other = uuid \<or>
        \<not> intervals_overlap st en (interval_start parse (h (snd other)))
            (interval_end parse (h (snd other))))"
proof (induction m)
  case Nil
  then show ?case by simp
next
  case (Cons p m)
  obtain k r where p: "p = (k, r)" by (cases p)
  show ?case unfolding p using Cons.IH
    by (auto simp: intervals_overlap_def interval_start_def interval_end_def Let_def)
qed

lemma validateEntry_fst:
  assumes "distinct (map fst (entries s))"
  shows "fst (validateEntry parse s r uuid) =
     (start (heap s r) < end_time (heap s r) \<and>
      \<not> (\<exists>other \<in> set (entries s). overlapping_other parse (heap s) (heap s r) uuid other))"
proof (cases "start (heap s r) < end_time (heap s r)")
  case False
  then show ?thesis by (simp add: validateEntry_def Let_def not_less)
next
  case True
  then have nle: "\<not> end_time (heap s r) \<le> start (heap s r)" by simp
  have "fst (validateEntry parse s r uuid) =
     no_collision parse (heap s) uuid (interval_start parse (heap s r)) (interval_end parse (heap s r))
       (filter (\<lambda>(_, r'). field_of (heap s r') K_date = JString (date (heap s r))) (entries s))"
    using nle by (simp add: validateEntry_def Let_def filterMap_distinct [OF assms]
        interval_start_def interval_end_def)
  also have "\<dots> = (\<not> (\<exists>other \<in> set (entries s). overlapping_other parse (heap s) (heap s r) uuid other))"
    unfolding no_collision_iff overlapping_other_def
    by (simp add: case_prod_beta) fastforce
  finally show ?thesis using True by simp
qed

lemma validateEntry_snd:
  "snd (validateEntry parse s r uuid) = set_valid s r (fst (validateEntry parse s r uuid))"
  by (simp add: validateEntry_def Let_def)

text \<open>
  Claim C1. \<open>validateEntry\<close> returns \<open>false\<close> and sets the entry's \<open>valid\<close> flag to
  \<open>false\<close> when \<open>start >= end\<close>, whatever the other entries are. Otherwise it returns
  \<open>false\<close> exactly when some entry stored under another key has the same date and an
  interval that overlaps by the half-open test, and \<open>true\<close> exactly when there is none. The
  boolean it returns is the flag it has just set, and it changes nothing else.
\<close>

theorem validateEntry_correct:
  assumes "distinct (map fst (entries s))"
  shows "let e = heap s r;
             ok = (start e < end_time e \<and>
                   \<not> (\<exists>other \<in> set (entries s). overlapping_other parse (heap s) e uuid other))
         in validateEntry parse s r uuid = (ok, s\<lparr>heap := (heap s)(r := e\<lparr>valid := ok\<rparr>)\<rparr>)"
proof -
  have "validateEntry parse s r uuid =
          (fst (validateEntry parse s r uuid), snd (validateEntry parse s r uuid))"
    by simp
  then show ?thesis
    unfolding Let_def validateEntry_snd validateEntry_fst [OF assms] set_valid_def by simp
qed

text \<open>Evaluation of the reference platform on the entries of the scenarios.\<close>

lemmas platform_defs = parseDateTime_def parse_date_def parse_time_def digit_val_def
  days_from_civil_def

lemma ex_ts:
  "parseDateTime ''2024-01-01 08:00'' = Some 1704096000000"
  "parseDateTime ''2024-01-01 09:00'' = Some 1704099600000"
  "parseDateTime ''2024-01-01 08:30'' = Some 1704097800000"
  "parseDateTime ''2024-01-01 09:30'' = Some 1704101400000"
  by (simp_all add: platform_defs)

theorem validateEntry_correct_witness:
  "distinct (map fst (entries overlap_state)) \<and>
   start (heap overlap_state 0) < end_time (heap overlap_state 0) \<and>
   overlapping_other parseDateTime (heap overlap_state) (heap overlap_state 0) ''a'' (''b'', 1) \<and>
   validateEntry parseDateTime overlap_state 0 ''a'' =
     (False, overlap_state\<lparr>heap := (heap overlap_state)(0 := (heap overlap_state 0)\<lparr>valid := False\<rparr>)\<rparr>)"
proof -
  have d: "distinct (map fst (entries overlap_state))"
    by (simp add: overlap_state_def)
  have lt: "start (heap overlap_state 0) < end_time (heap overlap_state 0)"
    by (simp add: overlap_state_def meeting_def)
  have ov: "overlapping_other parseDateTime (heap overlap_state) (heap overlap_state 0) ''a'' (''b'', 1)"
    by (simp add: overlap_state_def meeting_def overlapping_other_def intervals_overlap_def
        interval_start_def interval_end_def date_time_def ex_ts)
  have mem: "(''b'', 1) \<in> set (entries overlap_state)"
    by (simp add: overlap_state_def)
  from ov mem have ex: "\<exists>other \<in> set (entries overlap_state).
      overlapping_other parseDateTime (heap overlap_state) (heap overlap_state 0) ''a'' other"
    by blast
  then have okF: "(start (heap overlap_state 0) < end_time (heap overlap_state 0) \<and>
      \<not> (\<exists>other \<in> set (entries overlap_state).
      overlapping_other parseDateTime (heap overlap_state) (heap overlap_state 0) ''a'' other)) = False"
    by simp
  have "validateEntry parseDateTime overlap_state 0 ''a'' =
     (False, overlap_state\<lparr>heap := (heap overlap_state)(0 := (heap overlap_state 0)\<lparr>valid := False\<rparr>)\<rparr>)"
    using validateEntry_correct [OF d, of 0 parseDateTime "''a''"] unfolding Let_def okF .
  with d lt ov show ?thesis by simp
qed

section \<open>Saving\<close>

lemma validateEntry_frame [simp]:
  "log (snd (validateEntry parse s r uuid)) = log s"
  "store (snd (validateEntry parse s r uuid)) = store s"
  "entries (snd (validateEntry parse s r uuid)) = entries s"
  "next_ref (snd (validateEntry parse s r uuid)) = next_ref s"
  by (simp_all add: validateEntry_snd set_valid_def)

lemma validateEntry_heap:
  "heap (snd (validateEntry parse s r uuid)) =
     (heap s)(r := (heap s r)\<lparr>valid := fst (validateEntry parse s r uuid)\<rparr>)"
  by (simp add: validateEntry_snd set_valid_def)

lemma saveEntry_invalid_eq:
  assumes "\<not> fst (validateEntry parse s entry uuid)"
  shows "saveEntry parse s entry uuid =
           s\<lparr>heap := (heap s)(entry := (heap s entry)\<lparr>valid := False, dirty := True\<rparr>)\<rparr>"
proof -
  obtain ok s1 where v: "validateEntry parse s entry uuid = (ok, s1)"
    by (cases "validateEntry parse s entry uuid")
  with assms have ok: "\<not> ok" by simp
  from v validateEntry_snd [of parse s entry uuid] ok have s1: "s1 = set_valid s entry False"
    by simp
  show ?thesis
    by (simp add: saveEntry_def v ok s1 set_valid_def set_dirty_def)
qed

text \<open>
  Claim C4. When the entry fails validation inside \<open>saveEntry\<close>, \<open>saveEntry\<close> sets its
  \<open>dirty\<close> flag, asks nothing of the object store (the log is as it was: no \<open>put\<close>, no
  \<open>delete\<close>), and what is stored, a copy saved earlier included, stays as it was.
\<close>

theorem saveEntry_invalid_not_persisted:
  assumes "\<not> fst (validateEntry parse s entry uuid)"
  shows "let s' = saveEntry parse s entry uuid
         in dirty (heap s' entry) \<and> log s' = log s \<and> store s' = store s"
  by (simp add: saveEntry_invalid_eq [OF assms])

text \<open>
  What the cascade asks of the object store: it opens a connection, and after that it only
  puts, each time an entry that it has just found valid and marked clean.
\<close>

lemma save_dirty_loop_log:
  "\<exists>evs. log (save_dirty_loop parse c m s) = log s @ evs \<and>
         list_all is_put evs \<and> list_all put_is_clean evs"
proof (induction m arbitrary: s)
  case Nil
  then show ?case by simp
next
  case (Cons p m)
  obtain k r where p: "p = (k, r)" by (cases p)
  obtain ok s1 where v: "validateEntry parse s r k = (ok, s1)"
    by (cases "validateEntry parse s r k")
  from v validateEntry_snd [of parse s r k] have s1: "s1 = set_valid s r ok" by simp
  show ?case
  proof (cases ok)
    case False
    from Cons.IH [of s1] show ?thesis
      by (simp add: p v False s1 set_valid_def)
  next
    case True
    let ?s2 = "set_dirty s1 r False"
    let ?s3 = "db_put c (heap ?s2 r) k ?s2"
    from Cons.IH [of ?s3] obtain evs where
      evs: "log (save_dirty_loop parse c m ?s3) = log ?s3 @ evs"
        "list_all is_put evs" "list_all put_is_clean evs"
      by blast
    have l3: "log ?s3 = log s @ [DbPut c (heap ?s2 r) k]"
      by (simp add: db_put_def set_dirty_def s1 set_valid_def)
    have clean: "put_is_clean (DbPut c (heap ?s2 r) k)" "is_put (DbPut c (heap ?s2 r) k)"
      by (simp_all add: put_is_clean_def is_put_def set_dirty_def s1 set_valid_def True)
    have "log (save_dirty_loop parse c (p # m) s) = log s @ (DbPut c (heap ?s2 r) k # evs)"
      using evs(1) l3 by (simp add: p v True Let_def)
    moreover have "list_all is_put (DbPut c (heap ?s2 r) k # evs)"
      "list_all put_is_clean (DbPut c (heap ?s2 r) k # evs)"
      using evs clean by simp_all
    ultimately show ?thesis by blast
  qed
qed

lemma saveValidDitryEntries_log:
  "\<exists>evs. log (saveValidDitryEntries parse s) = log s @ DbOpen (length (log s)) # evs \<and>
         list_all is_put evs \<and> list_all put_is_clean evs"
proof -
  let ?s1 = "s\<lparr>log := log s @ [DbOpen (length (log s))]\<rparr>"
  let ?m = "filterMap (heap s) (entries s) K_dirty (JBool True)"
  from save_dirty_loop_log [of parse "length (log s)" ?m ?s1]
  obtain evs where "log (save_dirty_loop parse (length (log s)) ?m ?s1) = log ?s1 @ evs"
    "list_all is_put evs" "list_all put_is_clean evs" by blast
  then show ?thesis
    by (auto simp: saveValidDitryEntries_def getDB_def Let_def)
qed




text \<open>The definitions that a run on concrete entries unfolds.\<close>

lemmas run_defs = saveEntry_def saveValidDitryEntries_def deleteEntry_def validateEntry_def
  filterMap_def new_Map_def map_delete_def getDB_def db_put_def db_close_def db_delete_def
  set_valid_def set_dirty_def date_time_def meeting_def Let_def

theorem saveEntry_invalid_not_persisted_witness:
  "\<not> fst (validateEntry parseDateTime edited_state 0 ''a'') \<and>
   \<not> dirty (heap edited_state 0) \<and>
   dirty (heap (saveEntry parseDateTime edited_state 0 ''a'') 0) \<and>
   log (saveEntry parseDateTime edited_state 0 ''a'') = [] \<and>
   store (saveEntry parseDateTime edited_state 0 ''a'') ''a'' =
     Some (meeting ''2024-01-01'' ''08:00'' ''09:00'' True False)"
proof -
  have inv: "\<not> fst (validateEntry parseDateTime edited_state 0 ''a'')"
    by (simp add: edited_state_def validateEntry_def meeting_def Let_def)
  have nd: "\<not> dirty (heap edited_state 0)"
    by (simp add: edited_state_def meeting_def)
  have st: "store edited_state ''a'' = Some (meeting ''2024-01-01'' ''08:00'' ''09:00'' True False)"
    "log edited_state = []"
    by (simp_all add: edited_state_def)
  from saveEntry_invalid_not_persisted [OF inv] inv nd st show ?thesis
    by (simp add: Let_def)
qed

lemma save_dirty_loop_frame [simp]:
  "entries (save_dirty_loop parse c m s) = entries s"
proof (induction m arbitrary: s)
  case Nil
  then show ?case by simp
next
  case (Cons p m)
  obtain k r where p: "p = (k, r)" by (cases p)
  obtain ok s1 where v: "validateEntry parse s r k = (ok, s1)"
    by (cases "validateEntry parse s r k")
  from v validateEntry_snd [of parse s r k] have s1: "s1 = set_valid s r ok" by simp
  show ?case
    by (cases ok) (simp_all add: p v Cons.IH s1 set_valid_def set_dirty_def db_put_def Let_def)
qed

lemma saveValidDitryEntries_entries [simp]:
  "entries (saveValidDitryEntries parse s) = entries s"
  by (simp add: saveValidDitryEntries_def getDB_def Let_def)

text \<open>
  Claim C6. \<open>deleteEntry\<close> removes the identifier from the map in memory and asks the
  object store to delete it, through a connection that it opens and closes. It runs the
  cascade \<open>saveValidDitryEntries\<close> exactly when the \<open>valid\<close> flag of the entry it is given
  is \<open>false\<close>: when the flag is \<open>true\<close> the three events of the deletion are all that the log
  gains and no object changes; when it is \<open>false\<close> the opening of the cascade's connection
  and the cascade's puts come first.
\<close>

theorem deleteEntry_correct:
  "let s' = deleteEntry parse s entry uuid;
       n = length (log s);
       s1 = s\<lparr>entries := map_delete uuid (entries s)\<rparr>
   in entries s' = filter (\<lambda>(k, _). k \<noteq> uuid) (entries s) \<and>
      uuid \<notin> fst ` set (entries s') \<and>
      store s' uuid = None \<and>
      (if valid (heap s entry)
       then log s' = log s @ [DbOpen n, DbDelete n uuid, DbClose n] \<and> heap s' = heap s
       else \<exists>evs. log (saveValidDitryEntries parse s1) = log s @ DbOpen n # evs \<and>
              list_all is_put evs \<and>
              log s' = log s @ DbOpen n # evs @
                 [DbOpen (Suc (n + length evs)), DbDelete (Suc (n + length evs)) uuid,
                  DbClose (Suc (n + length evs))] \<and>
              heap s' = heap (saveValidDitryEntries parse s1))"
proof (cases "valid (heap s entry)")
  case True
  then show ?thesis
    by (auto simp: deleteEntry_def Let_def getDB_def db_delete_def db_close_def map_delete_def)
next
  case False
  let ?s1 = "s\<lparr>entries := map_delete uuid (entries s)\<rparr>"
  from saveValidDitryEntries_log [of parse ?s1] obtain evs where
    evs: "log (saveValidDitryEntries parse ?s1) = log s @ DbOpen (length (log s)) # evs"
      "list_all is_put evs"
    by auto
  have len: "length (log (saveValidDitryEntries parse ?s1)) = Suc (length (log s) + length evs)"
    by (simp add: evs(1))
  have "log (deleteEntry parse s entry uuid) = log s @ DbOpen (length (log s)) # evs @
                 [DbOpen (Suc (length (log s) + length evs)),
                  DbDelete (Suc (length (log s) + length evs)) uuid,
                  DbClose (Suc (length (log s) + length evs))]"
    using False by (simp add: deleteEntry_def Let_def getDB_def db_delete_def db_close_def len evs(1))
  moreover have "heap (deleteEntry parse s entry uuid) = heap (saveValidDitryEntries parse ?s1)"
    "store (deleteEntry parse s entry uuid) uuid = None"
    "entries (deleteEntry parse s entry uuid) = filter (\<lambda>(k, _). k \<noteq> uuid) (entries s)"
    using False by (simp_all add: deleteEntry_def Let_def getDB_def db_delete_def db_close_def map_delete_def)
  ultimately show ?thesis
    using False evs unfolding Let_def by auto
qed

lemma deleteEntry_overlap_log:
  "log (deleteEntry parseDateTime overlap_state 0 ''a'') =
     [DbOpen 0, DbPut 0 (meeting ''2024-01-01'' ''08:30'' ''09:30'' True False) ''b'',
      DbOpen 2, DbDelete 2 ''a'', DbClose 2]"
  by (simp add: overlap_state_def run_defs platform_defs)


theorem deleteEntry_correct_witness:
  "\<not> valid (heap overlap_state 0) \<and>
   entries (deleteEntry parseDateTime overlap_state 0 ''a'') = [(''b'', 1), (''c'', 2)] \<and>
   ''a'' \<notin> fst ` set (entries (deleteEntry parseDateTime overlap_state 0 ''a'')) \<and>
   store (deleteEntry parseDateTime overlap_state 0 ''a'') ''a'' = None \<and>
   log (deleteEntry parseDateTime overlap_state 0 ''a'') =
     [DbOpen 0, DbPut 0 (meeting ''2024-01-01'' ''08:30'' ''09:30'' True False) ''b'',
      DbOpen 2, DbDelete 2 ''a'', DbClose 2]"
proof -
  have nv: "\<not> valid (heap overlap_state 0)"
    by (simp add: overlap_state_def meeting_def)
  have es: "filter (\<lambda>(k, _). k \<noteq> ''a'') (entries overlap_state) = [(''b'', 1), (''c'', 2)]"
    by (simp add: overlap_state_def)
  from deleteEntry_correct [of parseDateTime overlap_state 0 "''a''"]
  have "entries (deleteEntry parseDateTime overlap_state 0 ''a'') = [(''b'', 1), (''c'', 2)] \<and>
        ''a'' \<notin> fst ` set (entries (deleteEntry parseDateTime overlap_state 0 ''a'')) \<and>
        store (deleteEntry parseDateTime overlap_state 0 ''a'') ''a'' = None"
    unfolding Let_def es by blast
  with nv deleteEntry_overlap_log show ?thesis by blast
qed

section \<open>When the cascade runs, and its connection\<close>

lemma saveEntry_stale_log:
  "log (saveEntry parseDateTime stale_state 0 ''a'') =
     [DbOpen 0, DbPut 0 (meeting ''2024-01-01'' ''08:00'' ''09:00'' True False) ''a'', DbClose 0]"
  by (simp add: stale_state_def run_defs platform_defs)

lemma saveEntry_fresh_log:
  "log (saveEntry parseDateTime fresh_state 0 ''a'') =
     [DbOpen 0, DbPut 0 (meeting ''2024-01-01'' ''08:00'' ''09:00'' True False) ''a'', DbClose 0,
      DbOpen 3, DbPut 3 (meeting ''2024-01-01'' ''10:00'' ''11:00'' True False) ''b'']"
  by (simp add: fresh_state_def run_defs platform_defs)

text \<open>
  Claim C3 says that \<open>saveEntry\<close> runs the cascade if and only if the saved entry went from
  invalid to valid during this save. The source tests \<open>oldValidFlag\<close> itself, under a comment
  that says "previously invalid entry is now valid and saved". In \<open>stale_state\<close> entry \<open>a\<close>
  goes from invalid to valid and the cascade does not run: \<open>b\<close>, which would validate, stays
  dirty and unsaved. In \<open>fresh_state\<close> entry \<open>a\<close> was valid before the save and the cascade
  runs and saves \<open>b\<close>.
\<close>

theorem saveEntry_cascade_follows_old_flag:
  "\<not> valid (heap stale_state 0) \<and>
   fst (validateEntry parseDateTime stale_state 0 ''a'') \<and>
   log (saveEntry parseDateTime stale_state 0 ''a'') =
     [DbOpen 0, DbPut 0 (meeting ''2024-01-01'' ''08:00'' ''09:00'' True False) ''a'', DbClose 0] \<and>
   dirty (heap (saveEntry parseDateTime stale_state 0 ''a'') 1) \<and>
   store (saveEntry parseDateTime stale_state 0 ''a'') ''b'' = None \<and>
   valid (heap fresh_state 0) \<and>
   fst (validateEntry parseDateTime fresh_state 0 ''a'') \<and>
   log (saveEntry parseDateTime fresh_state 0 ''a'') =
     [DbOpen 0, DbPut 0 (meeting ''2024-01-01'' ''08:00'' ''09:00'' True False) ''a'', DbClose 0,
      DbOpen 3, DbPut 3 (meeting ''2024-01-01'' ''10:00'' ''11:00'' True False) ''b'']"
proof -
  have "\<not> valid (heap stale_state 0)" "valid (heap fresh_state 0)"
    by (simp_all add: stale_state_def fresh_state_def meeting_def)
  moreover have "fst (validateEntry parseDateTime stale_state 0 ''a'')"
    by (simp add: stale_state_def run_defs platform_defs)
  moreover have "fst (validateEntry parseDateTime fresh_state 0 ''a'')"
    by (simp add: fresh_state_def run_defs platform_defs)
  moreover have "dirty (heap (saveEntry parseDateTime stale_state 0 ''a'') 1)"
    by (simp add: stale_state_def run_defs platform_defs)
  moreover have "store (saveEntry parseDateTime stale_state 0 ''a'') ''b'' = None"
    by (simp add: stale_state_def run_defs platform_defs)
  ultimately show ?thesis
    using saveEntry_stale_log saveEntry_fresh_log by simp
qed

text \<open>
  Claim C9 says that every operation that opens a connection closes it. The cascade opens
  one and never closes it: after deleting the invalid entry \<open>a\<close> of \<open>overlap_state\<close>
  connection 0, which the cascade opened, is still open, and so is connection 3 after saving
  entry \<open>a\<close> of \<open>fresh_state\<close>. The connections that \<open>saveEntry\<close> and \<open>deleteEntry\<close> open
  for their own \<open>put\<close> and \<open>delete\<close> are closed.
\<close>

theorem cascade_connection_left_open:
  "log (deleteEntry parseDateTime overlap_state 0 ''a'') =
     [DbOpen 0, DbPut 0 (meeting ''2024-01-01'' ''08:30'' ''09:30'' True False) ''b'',
      DbOpen 2, DbDelete 2 ''a'', DbClose 2] \<and>
   unclosed (log (deleteEntry parseDateTime overlap_state 0 ''a'')) = [0] \<and>
   unclosed (log (saveEntry parseDateTime fresh_state 0 ''a'')) = [3] \<and>
   unclosed (log (saveEntry parseDateTime stale_state 0 ''a'')) = []"
  by (simp add: deleteEntry_overlap_log saveEntry_fresh_log saveEntry_stale_log unclosed_def)


text \<open>
  The two parts of \<open>saveEntry\<close>, run one after the other with nothing in between, are
  \<open>saveEntry\<close>.
\<close>

lemma saveEntry_start_resume:
  "saveEntry parse s entry uuid =
     (case saveEntry_start parse s entry uuid of
        (None, s') \<Rightarrow> s'
      | (Some p, s') \<Rightarrow> saveEntry_resume parse s' entry uuid p)"
proof -
  obtain ok s1 where v: "validateEntry parse s entry uuid = (ok, s1)"
    by (cases "validateEntry parse s entry uuid")
  show ?thesis
    by (cases ok)
      (simp_all add: saveEntry_def saveEntry_start_def saveEntry_resume_def v getDB_def Let_def
        set_dirty_def db_put_def)
qed


text \<open>
  In general: when the entry validates, \<open>saveEntry\<close> logs more than its own three events,
  that is, runs the cascade, exactly when the entry's \<open>valid\<close> flag was already set.
\<close>

lemma saveEntry_cascade_iff_old_flag:
  assumes "fst (validateEntry parse s entry uuid)"
  shows "(length (log (saveEntry parse s entry uuid)) = length (log s) + 3) = (\<not> valid (heap s entry))"
proof -
  obtain ok s1 where v: "validateEntry parse s entry uuid = (ok, s1)"
    by (cases "validateEntry parse s entry uuid")
  with assms have ok by simp
  let ?c = "length (log s)"
  let ?s5 = "db_close ?c (db_put ?c (heap (set_dirty s1 entry False) entry) uuid
               ((set_dirty s1 entry False)\<lparr>log := log s @ [DbOpen ?c]\<rparr>))"
  from v validateEntry_frame(1) [of parse s entry uuid] have l1: "log s1 = log s" by simp
  have l5: "length (log ?s5) = ?c + 3"
    by (simp add: db_close_def db_put_def)
  have se: "saveEntry parse s entry uuid =
      (if valid (heap s entry) then saveValidDitryEntries parse ?s5 else ?s5)"
    using \<open>ok\<close> by (simp add: saveEntry_def v getDB_def Let_def set_dirty_def l1)
  from saveValidDitryEntries_log [of parse ?s5] obtain evs where
    "log (saveValidDitryEntries parse ?s5) = log ?s5 @ DbOpen (length (log ?s5)) # evs" by blast
  then have "length (log (saveValidDitryEntries parse ?s5)) = ?c + 4 + length evs"
    using l5 by simp
  with se l5 show ?thesis by (cases "valid (heap s entry)") simp_all
qed

section \<open>Filtering\<close>

text \<open>
  Claim C7. \<open>filterMap\<close> returns exactly the entries of the map whose named field equals the
  query, in the order they have in the map, under keys that are still distinct. It is a
  function of the objects and the map that returns only the new map: it writes to neither.
\<close>

theorem filterMap_correct:
  assumes "distinct (map fst m)"
  shows "set (filterMap h m field query) = {p \<in> set m. field_of (h (snd p)) field = query} \<and>
         subseq (filterMap h m field query) m \<and>
         distinct (map fst (filterMap h m field query))"
proof -
  have "filterMap h m field query = filter (\<lambda>p. field_of (h (snd p)) field = query) m"
    by (simp add: filterMap_distinct [OF assms] case_prod_unfold)
  then show ?thesis using assms by (auto simp: distinct_map_filter)
qed

theorem filterMap_correct_witness:
  "distinct (map fst (entries overlap_state)) \<and>
   filterMap (heap overlap_state) (entries overlap_state) K_date (JString ''2024-01-01'') =
     [(''a'', 0), (''b'', 1)] \<and>
   set [(''a'', 0), (''b'', 1 :: nat)] =
     {p \<in> set (entries overlap_state). field_of (heap overlap_state (snd p)) K_date = JString ''2024-01-01''} \<and>
   subseq [(''a'', 0), (''b'', 1)] (entries overlap_state)"
proof -
  have d: "distinct (map fst (entries overlap_state))"
    by (simp add: overlap_state_def)
  have f: "filterMap (heap overlap_state) (entries overlap_state) K_date (JString ''2024-01-01'') =
     [(''a'', 0), (''b'', 1)]"
    by (simp add: overlap_state_def filterMap_def new_Map_def meeting_def)
  from filterMap_correct [OF d, of "heap overlap_state" K_date "JString ''2024-01-01''"] d f
  show ?thesis by simp
qed

section \<open>Revalidation of all entries\<close>

text \<open>
  A validation reads only dates and times, and writes only a \<open>valid\<close> flag; so each
  validation of the pass gives what it would have given before the pass started.
\<close>

lemma same_times_refl [simp]: "same_times h h"
  by (simp add: same_times_def)

lemma same_times_trans: "same_times h h' \<Longrightarrow> same_times h' h'' \<Longrightarrow> same_times h h''"
  by (simp add: same_times_def)

lemma same_times_valid [simp]: "same_times h (h(r := (h r)\<lparr>valid := b\<rparr>))"
  by (simp add: same_times_def)

lemma same_times_dirty [simp]: "same_times h (h(r := (h r)\<lparr>dirty := b\<rparr>))"
  by (simp add: same_times_def)

lemma overlapping_other_cong:
  assumes "same_times h h'"
  shows "overlapping_other parse h' (h' r) uuid other = overlapping_other parse h (h r) uuid other"
  using assms
  by (simp add: overlapping_other_def interval_start_def interval_end_def same_times_def)

lemma validateEntry_fst_cong:
  assumes "distinct (map fst (entries s))" "entries s' = entries s" "same_times (heap s) (heap s')"
  shows "fst (validateEntry parse s' r uuid) = fst (validateEntry parse s r uuid)"
proof -
  from assms have d': "distinct (map fst (entries s'))" by simp
  from assms(3) have t: "start (heap s' r) = start (heap s r)" "end_time (heap s' r) = end_time (heap s r)"
    by (simp_all add: same_times_def)
  show ?thesis
    unfolding validateEntry_fst [OF d'] validateEntry_fst [OF assms(1)]
    by (simp add: overlapping_other_cong [OF assms(3)] assms(2) t)
qed

lemma validateEntry_same_times [simp]:
  "same_times (heap s) (heap (snd (validateEntry parse s r uuid)))"
  by (simp add: validateEntry_heap)

lemma validate_all_frame:
  "entries (validate_all parse xs s) = entries s \<and>
   log (validate_all parse xs s) = log s \<and>
   store (validate_all parse xs s) = store s \<and>
   next_ref (validate_all parse xs s) = next_ref s \<and>
   same_times (heap s) (heap (validate_all parse xs s))"
proof (induction xs arbitrary: s)
  case Nil
  then show ?case by simp
next
  case (Cons p xs)
  obtain k r where p: "p = (k, r)" by (cases p)
  from Cons.IH [of "snd (validateEntry parse s r k)"]
  show ?case
    using same_times_trans [OF validateEntry_same_times [of s parse r k]]
    by (simp add: p)
qed

lemma validate_all_untouched:
  "r \<notin> snd ` set xs \<Longrightarrow> heap (validate_all parse xs s) r = heap s r"
proof (induction xs arbitrary: s)
  case Nil
  then show ?case by simp
next
  case (Cons p xs)
  obtain k r' where p: "p = (k, r')" by (cases p)
  from Cons.prems have "r \<noteq> r'" "r \<notin> snd ` set xs" by (auto simp: p)
  with Cons.IH [of "snd (validateEntry parse s r' k)"] show ?case
    by (simp add: p validateEntry_heap)
qed

lemma validate_all_valid:
  assumes "distinct (map fst (entries s))" "r \<in> snd ` set xs"
  shows "\<exists>k. (k, r) \<in> set xs \<and>
             valid (heap (validate_all parse xs s) r) = fst (validateEntry parse s r k)"
  using assms
proof (induction xs arbitrary: s)
  case Nil
  then show ?case by simp
next
  case (Cons p xs)
  obtain k0 r0 where p: "p = (k0, r0)" by (cases p)
  let ?s1 = "snd (validateEntry parse s r0 k0)"
  have e1: "entries ?s1 = entries s" by simp
  have t1: "same_times (heap s) (heap ?s1)" by simp
  show ?case
  proof (cases "r \<in> snd ` set xs")
    case True
    from Cons.prems(1) have "distinct (map fst (entries ?s1))" by simp
    from Cons.IH [OF this True] obtain k where
      k: "(k, r) \<in> set xs" "valid (heap (validate_all parse xs ?s1) r) = fst (validateEntry parse ?s1 r k)"
      by blast
    have "fst (validateEntry parse ?s1 r k) = fst (validateEntry parse s r k)"
      by (rule validateEntry_fst_cong [OF Cons.prems(1) e1 t1])
    with k show ?thesis by (auto simp: p)
  next
    case False
    with Cons.prems(2) have r: "r = r0" by (auto simp: p)
    from validate_all_untouched [OF False, of parse ?s1]
    have "valid (heap (validate_all parse (p # xs) s) r) = fst (validateEntry parse s r0 k0)"
      by (simp add: p r validateEntry_heap)
    then show ?thesis by (auto simp: p r)
  qed
qed

text \<open>
  Claim C2, amended. After \<open>updateValidationStatus\<close> has run over the whole map, two entries
  stored under different keys that have the same date and are both marked valid do not
  overlap by the half-open test on the timestamps that \<open>Date.parse\<close> gives for their date
  and times. So, among the entries whose date and times \<open>Date.parse\<close> reads, of two with the
  same date whose intervals overlap at most one is marked valid. The test holds of no
  timestamp that is \<open>NaN\<close>, and the statement says nothing of entries whose date does not
  parse.
\<close>

theorem updateValidationStatus_valid_disjoint:
  assumes "distinct (map fst (entries s))"
  shows "let s' = updateValidationStatus parse s in
     \<forall>a \<in> set (entries s'). \<forall>b \<in> set (entries s').
       fst a \<noteq> fst b \<and> date (heap s' (snd a)) = date (heap s' (snd b)) \<and>
       valid (heap s' (snd a)) \<and> valid (heap s' (snd b)) \<longrightarrow>
       \<not> intervals_overlap
           (interval_start parse (heap s' (snd a))) (interval_end parse (heap s' (snd a)))
           (interval_start parse (heap s' (snd b))) (interval_end parse (heap s' (snd b)))"
proof -
  let ?s' = "updateValidationStatus parse s"
  have es: "entries ?s' = entries s" and st: "same_times (heap s) (heap ?s')"
    using validate_all_frame [of parse "entries s" s] by (simp_all add: updateValidationStatus_def)
  have iv: "interval_start parse (heap ?s' r) = interval_start parse (heap s r)"
           "interval_end parse (heap ?s' r) = interval_end parse (heap s r)"
           "date (heap ?s' r) = date (heap s r)" for r
    using st by (simp_all add: same_times_def interval_start_def interval_end_def)
  {
    fix k1 r1 k2 r2
    assume a: "(k1, r1) \<in> set (entries s)" and b: "(k2, r2) \<in> set (entries s)"
      and ne: "k1 \<noteq> k2" and dt: "date (heap s r1) = date (heap s r2)"
      and v1: "valid (heap ?s' r1)"
    from a have "r1 \<in> snd ` set (entries s)" by force
    from validate_all_valid [OF assms this, of parse] v1 obtain k where
      k: "(k, r1) \<in> set (entries s)" "fst (validateEntry parse s r1 k)"
      by (auto simp: updateValidationStatus_def)
    from k(2) have no: "\<And>other. other \<in> set (entries s) \<Longrightarrow>
        \<not> overlapping_other parse (heap s) (heap s r1) k other"
      unfolding validateEntry_fst [OF assms] by blast
    have "\<not> intervals_overlap
           (interval_start parse (heap s r1)) (interval_end parse (heap s r1))
           (interval_start parse (heap s r2)) (interval_end parse (heap s r2))"
    proof (cases "k2 = k")
      case False
      with no [OF b] dt show ?thesis by (simp add: overlapping_other_def)
    next
      case True
      with k(1) b assms have "r2 = r1" by (metis eq_key_imp_eq_value)
      moreover from True ne have "k1 \<noteq> k" by simp
      ultimately show ?thesis using no [OF a] by (simp add: overlapping_other_def)
    qed
  }
  then show ?thesis
    unfolding Let_def es iv by (auto simp: case_prod_beta)
qed


theorem updateValidationStatus_valid_disjoint_witness:
  "distinct (map fst (entries stale_state)) \<and>
   (''a'', 0) \<in> set (entries (updateValidationStatus parseDateTime stale_state)) \<and>
   (''b'', 1) \<in> set (entries (updateValidationStatus parseDateTime stale_state)) \<and>
   date (heap (updateValidationStatus parseDateTime stale_state) 0) =
     date (heap (updateValidationStatus parseDateTime stale_state) 1) \<and>
   valid (heap (updateValidationStatus parseDateTime stale_state) 0) \<and>
   valid (heap (updateValidationStatus parseDateTime stale_state) 1) \<and>
   \<not> intervals_overlap
       (interval_start parseDateTime (heap (updateValidationStatus parseDateTime stale_state) 0))
       (interval_end parseDateTime (heap (updateValidationStatus parseDateTime stale_state) 0))
       (interval_start parseDateTime (heap (updateValidationStatus parseDateTime stale_state) 1))
       (interval_end parseDateTime (heap (updateValidationStatus parseDateTime stale_state) 1))"
proof -
  let ?s' = "updateValidationStatus parseDateTime stale_state"
  have d: "distinct (map fst (entries stale_state))"
    by (simp add: stale_state_def)
  have es: "entries ?s' = [(''a'', 0), (''b'', 1)]"
    by (simp add: stale_state_def updateValidationStatus_def validateEntry_def set_valid_def Let_def)
  have dt: "date (heap ?s' 0) = date (heap ?s' 1)"
    by (simp add: stale_state_def updateValidationStatus_def validateEntry_def set_valid_def
        Let_def meeting_def)
  have v: "valid (heap ?s' 0)" "valid (heap ?s' 1)"
    by (simp_all add: stale_state_def updateValidationStatus_def run_defs platform_defs)
  have a: "(''a'', 0) \<in> set (entries ?s')" and b: "(''b'', 1) \<in> set (entries ?s')"
    by (simp_all add: es)
  from updateValidationStatus_valid_disjoint [OF d, of parseDateTime] a b dt v
  have "\<not> intervals_overlap
       (interval_start parseDateTime (heap ?s' 0)) (interval_end parseDateTime (heap ?s' 0))
       (interval_start parseDateTime (heap ?s' 1)) (interval_end parseDateTime (heap ?s' 1))"
    unfolding Let_def by fastforce
  with d a b dt v show ?thesis by blast
qed

text \<open>
  Claim C2 as it is written is about every two entries of one date. When the date input of
  two entries has been cleared their timestamps are \<open>NaN\<close>, no comparison of the overlap
  test holds, and the pass marks both valid although 08:00 to 09:00 and 08:30 to 09:30
  overlap.
\<close>

lemma undated_unparsed:
  "parseDateTime '' 08:00'' = None" "parseDateTime '' 09:00'' = None"
  "parseDateTime '' 08:30'' = None" "parseDateTime '' 09:30'' = None"
  by (simp_all add: parseDateTime_def)

theorem undated_entries_both_valid_counterexample:
  "fst (''a'', 0 :: ref) \<noteq> fst (''b'', 1 :: ref) \<and>
   entries (updateValidationStatus parseDateTime undated_state) = [(''a'', 0), (''b'', 1)] \<and>
   date (heap (updateValidationStatus parseDateTime undated_state) 0) =
     date (heap (updateValidationStatus parseDateTime undated_state) 1) \<and>
   start (heap (updateValidationStatus parseDateTime undated_state) 0) = ''08:00'' \<and>
   end_time (heap (updateValidationStatus parseDateTime undated_state) 0) = ''09:00'' \<and>
   start (heap (updateValidationStatus parseDateTime undated_state) 1) = ''08:30'' \<and>
   end_time (heap (updateValidationStatus parseDateTime undated_state) 1) = ''09:30'' \<and>
   times_overlap (heap (updateValidationStatus parseDateTime undated_state) 0)
     (heap (updateValidationStatus parseDateTime undated_state) 1) \<and>
   valid (heap (updateValidationStatus parseDateTime undated_state) 0) \<and>
   valid (heap (updateValidationStatus parseDateTime undated_state) 1)"
  by (simp add: undated_state_def updateValidationStatus_def run_defs undated_unparsed
      times_overlap_def)

section \<open>Sorting on load\<close>

lemma compareEntries_le_iff:
  assumes "interval_start parse (h (snd a)) \<noteq> None" "interval_start parse (h (snd b)) \<noteq> None"
  shows "(compareEntries parse h a b \<le> 0) = entry_le parse (h (snd a)) (h (snd b))"
  using assms
  by (auto simp: compareEntries_def entry_le_def interval_start_def Let_def)

lemma entry_le_total:
  assumes "interval_start parse a \<noteq> None" "interval_start parse b \<noteq> None"
  shows "entry_le parse a b \<or> entry_le parse b a"
  using assms by (auto simp: entry_le_def)

lemma entry_le_trans:
  assumes "entry_le parse a b" "entry_le parse b c"
  shows "entry_le parse a c"
  using assms by (auto simp: entry_le_def split: option.splits)

lemma mset_insert_sorted: "mset (insert_sorted cmp x ys) = add_mset x (mset ys)"
  by (induction ys) auto

lemma mset_array_sort: "mset (array_sort cmp xs) = mset xs"
  by (induction xs) (simp_all add: array_sort_def mset_insert_sorted)

lemma sorted_insert_sorted:
  assumes "\<forall>y \<in> set (x # ys). interval_start parse (h (snd y)) \<noteq> None"
    and "sorted_wrt (\<lambda>a b. entry_le parse (h (snd a)) (h (snd b))) ys"
  shows "sorted_wrt (\<lambda>a b. entry_le parse (h (snd a)) (h (snd b)))
           (insert_sorted (compareEntries parse h) x ys)"
  using assms
proof (induction ys)
  case Nil
  then show ?case by simp
next
  case (Cons y ys)
  let ?le = "\<lambda>a b. entry_le parse (h (snd a)) (h (snd b))"
  from Cons.prems(1) have dx: "interval_start parse (h (snd x)) \<noteq> None"
    and dy: "interval_start parse (h (snd y)) \<noteq> None" by simp_all
  show ?case
  proof (cases "compareEntries parse h x y \<le> 0")
    case True
    then have xy: "?le x y" by (simp add: compareEntries_le_iff [OF dx dy])
    have "\<forall>z \<in> set ys. ?le x z"
      using Cons.prems(2) xy entry_le_trans by fastforce
    with True xy Cons.prems(2) show ?thesis by simp
  next
    case False
    then have "\<not> ?le x y" by (simp add: compareEntries_le_iff [OF dx dy])
    with entry_le_total [OF dx dy] have yx: "?le y x" by blast
    have "sorted_wrt ?le (insert_sorted (compareEntries parse h) x ys)"
      using Cons.IH Cons.prems by simp
    moreover have "\<forall>z \<in> set (insert_sorted (compareEntries parse h) x ys). ?le y z"
    proof
      fix z assume "z \<in> set (insert_sorted (compareEntries parse h) x ys)"
      then have "z \<in># mset (insert_sorted (compareEntries parse h) x ys)" by simp
      then have "z = x \<or> z \<in> set ys" by (simp add: mset_insert_sorted)
      with yx Cons.prems(2) show "?le y z" by auto
    qed
    ultimately show ?thesis using False by simp
  qed
qed

lemma sorted_array_sort:
  assumes "\<forall>y \<in> set xs. interval_start parse (h (snd y)) \<noteq> None"
  shows "sorted_wrt (\<lambda>a b. entry_le parse (h (snd a)) (h (snd b)))
           (array_sort (compareEntries parse h) xs)"
  using assms
proof (induction xs)
  case Nil
  then show ?case by (simp add: array_sort_def)
next
  case (Cons x xs)
  have s: "set (array_sort (compareEntries parse h) xs) = set xs"
    using mset_array_sort [of "compareEntries parse h" xs] by (metis set_mset_mset)
  have "sorted_wrt (\<lambda>a b. entry_le parse (h (snd a)) (h (snd b)))
          (insert_sorted (compareEntries parse h) x (array_sort (compareEntries parse h) xs))"
    by (rule sorted_insert_sorted) (use Cons s in simp_all)
  then show ?case by (simp add: array_sort_def)
qed

text \<open>
  Claim C8, amended. For a map in which the date and start of every entry are read by
  \<open>Date.parse\<close>, \<open>sortEntries\<close> reorders the map: the entries are the same, and they stand in
  ascending order of the parsed timestamp of date and start, ties broken by category and then
  by description. Two entries of one day that start at 09:00 and 08:00 end up with 08:00
  first.
\<close>

theorem sortEntries_sorted:
  assumes "distinct (map fst (entries s))"
    and "\<forall>p \<in> set (entries s). interval_start parse (heap s (snd p)) \<noteq> None"
  shows "let s' = sortEntries parse s in
           sorted_wrt (\<lambda>a b. entry_le parse (heap s (snd a)) (heap s (snd b))) (entries s') \<and>
           mset (entries s') = mset (entries s) \<and>
           heap s' = heap s"
proof -
  let ?xs = "array_sort (compareEntries parse (heap s)) (entries s)"
  have m: "mset ?xs = mset (entries s)" by (rule mset_array_sort)
  then have "mset (map fst ?xs) = mset (map fst (entries s))" by (metis mset_map)
  with assms(1) have "distinct (map fst ?xs)" by (metis mset_eq_imp_distinct_iff)
  then have "new_Map ?xs = ?xs" by (rule new_Map_distinct)
  with m sorted_array_sort [OF assms(2)] show ?thesis
    by (simp add: sortEntries_def)
qed

theorem sortEntries_sorted_witness:
  "distinct (map fst (entries sort_state)) \<and>
   interval_start parseDateTime (heap sort_state 0) \<noteq> None \<and>
   interval_start parseDateTime (heap sort_state 1) \<noteq> None \<and>
   start (heap sort_state 0) = ''09:00'' \<and> start (heap sort_state 1) = ''08:00'' \<and>
   entries sort_state = [(''x'', 0), (''y'', 1)] \<and>
   entries (sortEntries parseDateTime sort_state) = [(''y'', 1), (''x'', 0)] \<and>
   sorted_wrt (\<lambda>a b. entry_le parseDateTime (heap sort_state (snd a)) (heap sort_state (snd b)))
     [(''y'', 1), (''x'', 0)]"
proof -
  have d: "distinct (map fst (entries sort_state))"
    by (simp add: sort_state_def)
  have p: "\<forall>p \<in> set (entries sort_state). interval_start parseDateTime (heap sort_state (snd p)) \<noteq> None"
    by (simp add: sort_state_def interval_start_def meeting_def date_time_def platform_defs)
  have e: "entries (sortEntries parseDateTime sort_state) = [(''y'', 1), (''x'', 0)]"
    by (simp add: sort_state_def sortEntries_def array_sort_def compareEntries_def new_Map_def
        meeting_def date_time_def platform_defs)
  have f: "start (heap sort_state 0) = ''09:00''" "start (heap sort_state 1) = ''08:00''"
    "entries sort_state = [(''x'', 0), (''y'', 1)]"
    by (simp_all add: sort_state_def meeting_def)
  from sortEntries_sorted [OF d p] e
  have "sorted_wrt (\<lambda>a b. entry_le parseDateTime (heap sort_state (snd a)) (heap sort_state (snd b)))
     [(''y'', 1), (''x'', 0)]"
    by (simp add: Let_def)
  moreover from p have "interval_start parseDateTime (heap sort_state 0) \<noteq> None"
    "interval_start parseDateTime (heap sort_state 1) \<noteq> None"
    by (simp_all add: sort_state_def)
  ultimately show ?thesis using d e f by blast
qed

text \<open>
  Claim C8 as it is written is about every map. An entry whose date input has been cleared
  is valid and is saved, and its timestamp is \<open>NaN\<close>; the comparison function then goes by
  category alone wherever that entry is compared. In \<open>unparsed_state\<close> each entry compares
  as before its successor, \<open>a\<close> before \<open>b\<close> and \<open>b\<close> before \<open>c\<close> by category, so the array is
  already one ascending run and the sort leaves it as it is: \<open>a\<close>, at 09:00, stays before
  \<open>c\<close>, at 08:00 of the same day.
\<close>

theorem unparsed_date_sort_counterexample:
  "entries unparsed_state = [(''a'', 0), (''b'', 1), (''c'', 2)] \<and>
   compareEntries parseDateTime (heap unparsed_state) (''a'', 0) (''b'', 1) = - 1 \<and>
   compareEntries parseDateTime (heap unparsed_state) (''b'', 1) (''c'', 2) = - 1 \<and>
   compareEntries parseDateTime (heap unparsed_state) (''a'', 0) (''c'', 2) = 1 \<and>
   interval_start parseDateTime (heap unparsed_state 0) = Some 1704099600000 \<and>
   interval_start parseDateTime (heap unparsed_state 1) = None \<and>
   interval_start parseDateTime (heap unparsed_state 2) = Some 1704096000000 \<and>
   entries (sortEntries parseDateTime unparsed_state) = [(''a'', 0), (''b'', 1), (''c'', 2)] \<and>
   \<not> entry_le parseDateTime (heap unparsed_state 0) (heap unparsed_state 2) \<and>
   \<not> sorted_wrt (\<lambda>a b. entry_le parseDateTime (heap unparsed_state (snd a)) (heap unparsed_state (snd b)))
       (entries (sortEntries parseDateTime unparsed_state))"
proof -
  have ts: "interval_start parseDateTime (heap unparsed_state 0) = Some 1704099600000"
    "interval_start parseDateTime (heap unparsed_state 1) = None"
    "interval_start parseDateTime (heap unparsed_state 2) = Some 1704096000000"
    by (simp_all add: unparsed_state_def interval_start_def meeting_def date_time_def platform_defs)
  have c: "compareEntries parseDateTime (heap unparsed_state) (''a'', 0) (''b'', 1) = - 1"
    "compareEntries parseDateTime (heap unparsed_state) (''b'', 1) (''c'', 2) = - 1"
    "compareEntries parseDateTime (heap unparsed_state) (''a'', 0) (''c'', 2) = 1"
    by (simp_all add: unparsed_state_def compareEntries_def meeting_def date_time_def platform_defs)
  have e: "entries (sortEntries parseDateTime unparsed_state) = [(''a'', 0), (''b'', 1), (''c'', 2)]"
    by (simp add: unparsed_state_def sortEntries_def array_sort_def compareEntries_def new_Map_def
        meeting_def date_time_def platform_defs)
  have nle: "\<not> entry_le parseDateTime (heap unparsed_state 0) (heap unparsed_state 2)"
    by (simp add: entry_le_def ts)
  have "entries unparsed_state = [(''a'', 0), (''b'', 1), (''c'', 2)]"
    by (simp add: unparsed_state_def)
  with ts c e nle show ?thesis by simp
qed

section \<open>Times of day on the reference platform\<close>

lemma digit_cases:
  "d < 10 \<Longrightarrow> d = 0 \<or> d = 1 \<or> d = 2 \<or> d = 3 \<or> d = 4 \<or> d = 5 \<or> d = 6 \<or> d = 7 \<or> d = 8 \<or> d = (9::nat)"
  by arith

lemma of_char_digit_char:
  assumes "d < 10"
  shows "of_char (digit_char d) = 48 + d"
  using digit_cases [OF assms] by (elim disjE) (simp_all add: digit_char_def)

lemma digit_val_digit_char: "d < 10 \<Longrightarrow> digit_val (digit_char d) = Some d"
  by (simp add: digit_val_def of_char_digit_char)

lemma digit_char_less: "a < 10 \<Longrightarrow> b < 10 \<Longrightarrow> (digit_char a < digit_char b) = (a < b)"
  by (simp add: less_char_def of_char_digit_char)

lemma digit_char_eq: "a < 10 \<Longrightarrow> b < 10 \<Longrightarrow> (digit_char a = digit_char b) = (a = b)"
  by (metis of_char_digit_char add_left_cancel)

lemma number_of_two_digits: "n < 100 \<Longrightarrow> number_of 0 (two_digits n) = Some n"
  by (simp add: two_digits_def digit_val_digit_char)

lemma length_hhmm [simp]: "length (hhmm n) = 5"
  by (simp add: hhmm_def two_digits_def)

lemma parse_time_hhmm: "n < 1440 \<Longrightarrow> parse_time (hhmm n) = Some n"
proof -
  assume n: "n < 1440"
  then have h: "n div 60 < 100" "n mod 60 < 100" "n div 60 < 24" by simp_all
  have t: "take 2 (hhmm n) = two_digits (n div 60)" "drop 3 (hhmm n) = two_digits (n mod 60)"
    "hhmm n ! 2 = CHR '':''"
    by (simp_all add: hhmm_def two_digits_def)
  show ?thesis
    by (simp add: parse_time_def t number_of_two_digits h)
qed

lemma parse_date_length: "parse_date today = Some d \<Longrightarrow> length today = 10"
  by (simp add: parse_date_def split: if_splits)

lemma parseDateTime_hhmm:
  assumes "parse_date today = Some d" "n < 1440"
  shows "parseDateTime (date_time today (hhmm n)) = Some ((d * 1440 + int n) * 60000)"
proof -
  from assms(1) have l: "length today = 10" by (rule parse_date_length)
  then have "length (date_time today (hhmm n)) = 16" "date_time today (hhmm n) ! 10 = CHR '' ''"
    "take 10 (date_time today (hhmm n)) = today" "drop 11 (date_time today (hhmm n)) = hhmm n"
    by (simp_all add: date_time_def nth_append)
  then show ?thesis
    by (simp add: parseDateTime_def assms(1) parse_time_hhmm [OF assms(2)])
qed

lemma localeTimeString24_half_hour_later:
  assumes "n + 30 < 1440"
  shows "take 5 (localeTimeString24 (Some ((d * 1440 + int n) * 60000 + 1000 * 60 * 30))) = hhmm (n + 30)"
proof -
  let ?x = "int ((n + 30) * 60)"
  have "((d * 1440 + int n) * 60000 + 1000 * 60 * 30) = (d * 86400 + ?x) * 1000"
    by simp
  then have "((d * 1440 + int n) * 60000 + 1000 * 60 * 30) div 1000 = d * 86400 + ?x"
    by (simp only: nonzero_mult_div_cancel_right)
  moreover have "(d * 86400 + ?x) mod 86400 = ?x mod 86400"
    by (rule mod_mult_self3)
  moreover have "?x mod 86400 = ?x"
    using assms by (intro mod_pos_pos_trivial) simp_all
  ultimately have "nat ((((d * 1440 + int n) * 60000 + 1000 * 60 * 30) div 1000) mod 86400) = (n + 30) * 60"
    by (simp only: nat_int)
  then show ?thesis
    by (simp only: localeTimeString24_def Let_def option.case) (simp add: hhmm_def two_digits_def)
qed

lemma hhmm_examples:
  "hhmm 1065 = ''17:45''" "hhmm 1095 = ''18:15''" "hhmm 1425 = ''23:45''" "hhmm 420 = ''07:00''"
  by (simp_all add: hhmm_def two_digits_def digit_char_def)

text \<open>
  The test \<open>start >= "23:30"\<close> compares strings; on a time of day it is the comparison of the
  minutes.
\<close>

lemma hhmm_late_iff:
  assumes "n < 1440"
  shows "(''23:30'' \<le> hhmm n) = (1410 \<le> n)"
proof -
  define a b c e where "a = n div 60 div 10" and "b = n div 60 mod 10"
    and "c = n mod 60 div 10" and "e = n mod 60 mod 10"
  have bounds: "a < 10" "b < 10" "c < 10" "e < 10" "c < 6"
    using assms by (simp_all add: a_def b_def c_def e_def div_less_iff_less_mult)
  have "n div 60 = 10 * a + b" "n mod 60 = 10 * c + e"
    by (simp_all add: a_def b_def c_def e_def)
  moreover have "n = 60 * (n div 60) + n mod 60"
    by simp
  ultimately have n: "n = 600 * a + 60 * b + 10 * c + e"
    by simp
  have lit: "''23:30'' = [digit_char 2, digit_char 3, CHR '':'', digit_char 3, digit_char 0]"
    by (simp add: digit_char_def)
  have h: "hhmm n = [digit_char a, digit_char b, CHR '':'', digit_char c, digit_char e]"
    using bounds by (simp add: hhmm_def two_digits_def a_def b_def c_def e_def)
  have "(''23:30'' \<le> hhmm n) =
      (2 < a \<or> (2 = a \<and> (3 < b \<or> (3 = b \<and> (3 < c \<or> 3 = c)))))"
    unfolding lit h using bounds
    by (simp add: digit_char_less digit_char_eq) arith
  also have "\<dots> = (1410 \<le> n)"
    using bounds unfolding n by arith
  finally show ?thesis .
qed

section \<open>Defaults of a new entry\<close>

text \<open>
  Validation and saving write only the flags of an entry, so the date and the times that
  \<open>addNew\<close> gives the new entry are the ones it has at the end.
\<close>

lemma save_dirty_loop_same_times:
  "same_times (heap s) (heap (save_dirty_loop parse c m s))"
proof (induction m arbitrary: s)
  case Nil
  then show ?case by simp
next
  case (Cons p m)
  obtain k r where p: "p = (k, r)" by (cases p)
  obtain ok s1 where v: "validateEntry parse s r k = (ok, s1)"
    by (cases "validateEntry parse s r k")
  from v validateEntry_snd [of parse s r k] have s1: "s1 = set_valid s r ok" by simp
  have t1: "same_times (heap s) (heap s1)" by (simp add: s1 set_valid_def)
  show ?case
  proof (cases ok)
    case False
    with same_times_trans [OF t1 Cons.IH [of s1]] show ?thesis by (simp add: p v)
  next
    case True
    let ?s2 = "set_dirty s1 r False"
    let ?s3 = "db_put c (heap ?s2 r) k ?s2"
    have "same_times (heap s1) (heap ?s3)" by (simp add: db_put_def set_dirty_def)
    from same_times_trans [OF same_times_trans [OF t1 this] Cons.IH [of ?s3]] True
    show ?thesis by (simp add: p v Let_def)
  qed
qed

lemma saveValidDitryEntries_same_times:
  "same_times (heap s) (heap (saveValidDitryEntries parse s))"
  using save_dirty_loop_same_times
    [of "s\<lparr>log := log s @ [DbOpen (length (log s))]\<rparr>" parse "length (log s)"]
  by (simp add: saveValidDitryEntries_def getDB_def Let_def)

lemma saveEntry_frame:
  "entries (saveEntry parse s entry uuid) = entries s \<and>
   same_times (heap s) (heap (saveEntry parse s entry uuid))"
proof -
  obtain ok s1 where v: "validateEntry parse s entry uuid = (ok, s1)"
    by (cases "validateEntry parse s entry uuid")
  from v validateEntry_snd [of parse s entry uuid] have s1: "s1 = set_valid s entry ok" by simp
  let ?c = "length (log s)"
  let ?s5 = "db_close ?c (db_put ?c (heap (set_dirty s1 entry False) entry) uuid
               ((set_dirty s1 entry False)\<lparr>log := log s @ [DbOpen ?c]\<rparr>))"
  have t5: "same_times (heap s) (heap ?s5)" "entries ?s5 = entries s"
    by (simp_all add: db_close_def db_put_def set_dirty_def s1 set_valid_def same_times_def)
  show ?thesis
  proof (cases ok)
    case False
    then show ?thesis
      by (simp add: saveEntry_def v s1 set_valid_def set_dirty_def same_times_def)
  next
    case True
    then have se: "saveEntry parse s entry uuid =
        (if valid (heap s entry) then saveValidDitryEntries parse ?s5 else ?s5)"
      by (simp add: saveEntry_def v getDB_def Let_def set_dirty_def s1 set_valid_def)
    show ?thesis
      unfolding se using t5 same_times_trans [OF t5(1) saveValidDitryEntries_same_times [of ?s5 parse]]
      by simp
  qed
qed

lemma map_of_map_set: "map_of (map_set k v m) k = Some v"
  by (induction m) auto

text \<open>\<open>getLatestTime\<close> is the greatest of the floor and the ends of the day's entries.\<close>

lemma foldl_max:
  fixes a :: "'a::linorder"
  shows "foldl (\<lambda>max current. if max > current then max else current) a xs = Max (set (a # xs))"
proof (induction xs arbitrary: a)
  case Nil
  then show ?case by simp
next
  case (Cons x xs)
  have "(if a > x then a else x) = max a x" by (auto simp: max_def)
  then have "foldl (\<lambda>max current. if max > current then max else current) a (x # xs) =
        Max (insert (max a x) (set xs))"
    using Cons.IH [of "max a x"] by simp
  also have "\<dots> = Max (set (a # x # xs))"
    by (cases "xs = []") (simp_all add: max.assoc)
  finally show ?case .
qed

lemma getLatestTime_Max:
  assumes "distinct (map fst (entries s))"
  shows "getLatestTime s d =
     Max (set (''07:00'' # map (\<lambda>p. end_time (heap s (snd p)))
                              (filter (\<lambda>p. date (heap s (snd p)) = d) (entries s))))"
  by (simp add: getLatestTime_def Let_def filterMap_distinct [OF assms] foldl_max case_prod_unfold)

lemma addNew_new_entry:
  "let s' = addNew parse localeTimeString today uuid s;
       e = heap s' (next_ref s);
       st = getLatestTime s today
   in map_of (entries s') uuid = Some (next_ref s) \<and>
      date e = today \<and> start e = st \<and>
      end_time e =
        (if ''23:30'' \<le> st then ''23:59''
         else take 5 (localeTimeString (map_option (\<lambda>t. t + 1000 * 60 * 30)
                (parse (date_time today st)))))"
proof -
  let ?r = "next_ref s"
  let ?st = "getLatestTime s today"
  let ?en = "if ''23:30'' \<le> ?st then ''23:59''
         else take 5 (localeTimeString (map_option (\<lambda>t. t + 1000 * 60 * 30)
                (parse (date_time today ?st))))"
  let ?entry = "\<lparr>date = today, start = ?st, end_time = ?en, category = ''Meeting'',
                   description = '''', valid = False, dirty = True\<rparr>"
  let ?s1 = "s\<lparr>heap := (heap s)(?r := ?entry), next_ref := Suc ?r,
                 entries := map_set uuid ?r (entries s)\<rparr>"
  let ?s2 = "updateValidationStatus parse ?s1"
  have an: "addNew parse localeTimeString today uuid s = saveEntry parse ?s2 ?r uuid"
    unfolding addNew_def Let_def ..
  have f2: "entries ?s2 = entries ?s1" "same_times (heap ?s1) (heap ?s2)"
    using validate_all_frame [of parse "entries ?s1" ?s1]
    by (simp_all add: updateValidationStatus_def)
  from saveEntry_frame [of parse ?s2 ?r uuid]
  have f3: "entries (saveEntry parse ?s2 ?r uuid) = entries ?s2"
    "same_times (heap ?s2) (heap (saveEntry parse ?s2 ?r uuid))"
    by simp_all
  from same_times_trans [OF f2(2) f3(2)]
  have t: "same_times (heap ?s1) (heap (saveEntry parse ?s2 ?r uuid))" .
  have "date (heap (saveEntry parse ?s2 ?r uuid) ?r) = today"
    "start (heap (saveEntry parse ?s2 ?r uuid) ?r) = ?st"
    "end_time (heap (saveEntry parse ?s2 ?r uuid) ?r) = ?en"
    using t unfolding same_times_def by simp_all
  moreover have "map_of (entries (saveEntry parse ?s2 ?r uuid)) uuid = Some ?r"
    unfolding f3(1) f2(1) by (simp add: map_of_map_set)
  ultimately show ?thesis
    unfolding Let_def an by simp
qed

text \<open>
  Claim C5, amended. Whatever \<open>Date.parse\<close> and the locale are, \<open>addNew\<close> stores under the
  new identifier an entry whose date is the current day and whose start is the greatest, in
  the order of strings, of the floor \<open>"07:00"\<close> and the end times of the entries of that day:
  the latest end of the day when it is later than 07:00, and 07:00 otherwise. When the start
  is \<open>"23:30"\<close> or later its end is \<open>"23:59"\<close>. A latest end of 23:45 gives start 23:45 and
  end 23:59; a latest end of 17:45 gives start 17:45.
\<close>

theorem addNew_defaults:
  assumes "distinct (map fst (entries s))"
  shows "let s' = addNew parse localeTimeString today uuid s;
             e = heap s' (next_ref s);
             ends = map (\<lambda>p. end_time (heap s (snd p)))
                      (filter (\<lambda>p. date (heap s (snd p)) = today) (entries s))
         in map_of (entries s') uuid = Some (next_ref s) \<and>
            date e = today \<and>
            start e = Max (set (''07:00'' # ends)) \<and>
            (''23:30'' \<le> start e \<longrightarrow> end_time e = ''23:59'')"
  using addNew_new_entry [of parse localeTimeString today uuid s]
  unfolding Let_def getLatestTime_Max [OF assms, symmetric] by simp

lemma parse_date_example: "parse_date ''2024-01-01'' = Some 19723"
  by (simp add: platform_defs)

lemma getLatestTime_examples:
  "getLatestTime evening_state ''2024-01-01'' = ''17:45''"
  "getLatestTime night_state ''2024-01-01'' = ''23:45''"
  "getLatestTime early_state ''2024-01-01'' = ''07:00''"
  by (simp_all add: getLatestTime_def filterMap_def new_Map_def meeting_def
      evening_state_def night_state_def early_state_def)

theorem addNew_defaults_witness:
  "distinct (map fst (entries night_state)) \<and>
   map_of (entries (addNew parseDateTime localeTimeString12 ''2024-01-01'' ''n'' night_state)) ''n'' = Some 1 \<and>
   date (heap (addNew parseDateTime localeTimeString12 ''2024-01-01'' ''n'' night_state) 1) = ''2024-01-01'' \<and>
   start (heap (addNew parseDateTime localeTimeString12 ''2024-01-01'' ''n'' night_state) 1) = ''23:45'' \<and>
   ''23:30'' \<le> ''23:45'' \<and>
   end_time (heap (addNew parseDateTime localeTimeString12 ''2024-01-01'' ''n'' night_state) 1) = ''23:59'' \<and>
   distinct (map fst (entries evening_state)) \<and>
   start (heap (addNew parseDateTime localeTimeString12 ''2024-01-01'' ''n'' evening_state) 2) = ''17:45''"
proof -
  have d: "distinct (map fst (entries night_state))" "distinct (map fst (entries evening_state))"
    by (simp_all add: evening_state_def night_state_def)
  have r: "next_ref evening_state = 2" "next_ref night_state = 1"
    by (simp_all add: evening_state_def night_state_def)
  have "map_of (entries (addNew parseDateTime localeTimeString12 ''2024-01-01'' ''n'' night_state)) ''n'' = Some 1 \<and>
   date (heap (addNew parseDateTime localeTimeString12 ''2024-01-01'' ''n'' night_state) 1) = ''2024-01-01'' \<and>
   start (heap (addNew parseDateTime localeTimeString12 ''2024-01-01'' ''n'' night_state) 1) = ''23:45'' \<and>
   end_time (heap (addNew parseDateTime localeTimeString12 ''2024-01-01'' ''n'' night_state) 1) = ''23:59''"
    using addNew_defaults [OF d(1), of parseDateTime localeTimeString12 "''2024-01-01''" "''n''"]
    unfolding Let_def getLatestTime_Max [OF d(1), symmetric] r
    by (simp add: getLatestTime_examples)
  moreover have "start (heap (addNew parseDateTime localeTimeString12 ''2024-01-01'' ''n'' evening_state) 2) = ''17:45''"
    using addNew_defaults [OF d(2), of parseDateTime localeTimeString12 "''2024-01-01''" "''n''"]
    unfolding Let_def getLatestTime_Max [OF d(2), symmetric] r
    by (simp add: getLatestTime_examples)
  moreover have "''23:30'' \<le> ''23:45''" by simp
  ultimately show ?thesis using d by blast
qed

text \<open>
  For a start before 23:30 the source takes the first five characters of what
  \<open>toLocaleTimeString()\<close> gives for the start plus 30 minutes. Where the locale writes
  \<open>HH:MM:SS\<close> on the 24-hour clock these are the time of day half an hour later.
\<close>

lemma addNew_end_on_24_hour_platform:
  assumes "parse_date today = Some d"
    and "getLatestTime s today = hhmm n" and "n < 1440"
  shows "end_time (heap (addNew parseDateTime localeTimeString24 today uuid s) (next_ref s)) =
           (if n < 1410 then hhmm (n + 30) else ''23:59'')"
proof -
  let ?en = "if n < 1410 then hhmm (n + 30) else ''23:59''"
  have en: "(if ''23:30'' \<le> hhmm n then ''23:59''
             else take 5 (localeTimeString24 (map_option (\<lambda>t. t + 1000 * 60 * 30)
                    (parseDateTime (date_time today (hhmm n)))))) = ?en"
  proof (cases "n < 1410")
    case True
    then have "n + 30 < 1440" by simp
    from localeTimeString24_half_hour_later [OF this, of d] True
    show ?thesis
      by (simp add: hhmm_late_iff [OF assms(3)] parseDateTime_hhmm [OF assms(1,3)]
          del: mult_numeral_left_semiring_numeral)
  next
    case False
    then show ?thesis by (simp add: hhmm_late_iff [OF assms(3)])
  qed
  from addNew_new_entry [of parseDateTime localeTimeString24 today uuid s]
  show ?thesis
    unfolding Let_def assms(2) en by simp
qed

lemma addNew_quarter_to_six_24_hour:
  "end_time (heap (addNew parseDateTime localeTimeString24 ''2024-01-01'' ''n'' evening_state) 2) = ''18:15''"
proof -
  have g: "getLatestTime evening_state ''2024-01-01'' = hhmm 1065"
    by (simp add: getLatestTime_examples hhmm_examples)
  have r: "next_ref evening_state = 2"
    by (simp add: evening_state_def)
  from addNew_end_on_24_hour_platform [OF parse_date_example g, of "''n''"]
  show ?thesis by (simp add: r hhmm_examples)
qed

lemma half_past_five_12h:
  "take 5 (localeTimeString12 (map_option (\<lambda>t. t + 1000 * 60 * 30)
      (parseDateTime (date_time ''2024-01-01'' ''17:45'')))) = ''6:15:''"
  by (simp add: date_time_def platform_defs localeTimeString12_def hour12_def two_digits_def
      digit_char_def)

text \<open>
  Claim C5 as it is written says that the start is the latest end time among the entries of
  the day whenever there is one, and that the end is the start plus 30 minutes. With one
  entry of the day, ending at 06:00, the new entry starts at 07:00. And where the locale is
  \<open>en-US\<close>, 18:15 is written \<open>6:15:00 PM\<close>: with a latest end of 17:45 the new entry starts
  at 17:45 and its end is the string \<open>6:15:\<close>.
\<close>

theorem addNew_defaults_counterexample:
  "entries early_state = [(''a'', 0)] \<and>
   date (heap early_state 0) = ''2024-01-01'' \<and>
   end_time (heap early_state 0) = ''06:00'' \<and>
   start (heap (addNew parseDateTime localeTimeString24 ''2024-01-01'' ''n'' early_state)
            (next_ref early_state)) = ''07:00'' \<and>
   start (heap (addNew parseDateTime localeTimeString24 ''2024-01-01'' ''n'' early_state)
            (next_ref early_state)) \<noteq> end_time (heap early_state 0) \<and>
   localeTimeString12 (Some 1704132900000) = ''6:15:00 PM'' \<and>
   start (heap (addNew parseDateTime localeTimeString12 ''2024-01-01'' ''n'' evening_state)
            (next_ref evening_state)) = ''17:45'' \<and>
   end_time (heap (addNew parseDateTime localeTimeString12 ''2024-01-01'' ''n'' evening_state)
            (next_ref evening_state)) = ''6:15:''"
proof -
  have e: "entries early_state = [(''a'', 0)]" "date (heap early_state 0) = ''2024-01-01''"
    "end_time (heap early_state 0) = ''06:00''"
    by (simp_all add: early_state_def meeting_def)
  from addNew_new_entry [of parseDateTime localeTimeString24 "''2024-01-01''" "''n''" early_state]
  have "start (heap (addNew parseDateTime localeTimeString24 ''2024-01-01'' ''n'' early_state)
            (next_ref early_state)) = ''07:00''"
    unfolding Let_def getLatestTime_examples by simp
  moreover
  from addNew_new_entry [of parseDateTime localeTimeString12 "''2024-01-01''" "''n''" evening_state]
  have "start (heap (addNew parseDateTime localeTimeString12 ''2024-01-01'' ''n'' evening_state)
            (next_ref evening_state)) = ''17:45'' \<and>
        end_time (heap (addNew parseDateTime localeTimeString12 ''2024-01-01'' ''n'' evening_state)
            (next_ref evening_state)) = ''6:15:''"
    unfolding Let_def getLatestTime_examples half_past_five_12h by simp
  moreover have "localeTimeString12 (Some 1704132900000) = ''6:15:00 PM''"
    by (simp add: localeTimeString12_def hour12_def two_digits_def digit_char_def)
  ultimately show ?thesis using e by simp
qed

end
